theory Spec2Isabelle
  imports Main
begin

section \<open>Masks and the numpy operations the mask engine uses\<close>

text \<open>
  The mask engine is the class \<open>Compute4Mask\<close> of \<open>dcp_client/utils/utils.py\<close>.
  A mask is a two-dimensional numpy array of integers; it is modelled as the list of its
  rows. The code copies and compares pixel values, so a value is an \<open>int\<close>; the one
  write that goes from one array into an array of another dtype, the placeholder id that
  \<open>compute_new_labels_mask\<close> stores in the class mask, is cast to the dtype of the
  target as numpy casts it.
  Where a function of the class writes into an array in place, the model passes the array
  through and returns the updated one. A numpy exception is the \<open>Inl\<close> branch of a
  result.
\<close>

type_synonym grid = "int list list"

type_synonym pos = "nat \<times> nat"

datatype error = IndexError | ValueError

datatype dtype = UInt nat | SInt nat
  \<comment> \<open>the integer dtypes of numpy by signedness and width: \<open>np.uint8\<close> is \<open>UInt 8\<close>,
      \<open>np.int64\<close> is \<open>SInt 64\<close>\<close>

definition astype :: "dtype \<Rightarrow> int \<Rightarrow> int" where
  \<comment> \<open>the cast of an integer of another dtype on assignment into an array: the value
      wraps around modulo \<open>2 ^ w\<close>\<close>
  "astype dt v =
     (case dt of
        UInt w \<Rightarrow> v mod 2 ^ w
      | SInt w \<Rightarrow> (v + 2 ^ w div 2) mod 2 ^ w - 2 ^ w div 2)"

definition representable :: "dtype \<Rightarrow> int \<Rightarrow> bool" where
  \<comment> \<open>the value is in the range of the dtype\<close>
  "representable dt v =
     (case dt of
        UInt w \<Rightarrow> 0 \<le> v \<and> v < 2 ^ w
      | SInt w \<Rightarrow> - (2 ^ w div 2) \<le> v \<and> v < 2 ^ w - 2 ^ w div 2)"

definition shape :: "grid \<Rightarrow> nat list" where
  \<comment> \<open>the row lengths; two arrays of the same numpy shape have the same row lengths\<close>
  "shape g = map length g"

definition flatten :: "'a list list \<Rightarrow> 'a list" where
  \<comment> \<open>row-major order, as numpy flattens\<close>
  "flatten g = concat g"

definition zeros_like :: "grid \<Rightarrow> grid" where
  "zeros_like g = map (map (\<lambda>_. 0)) g"

definition np_unique :: "int list \<Rightarrow> int list" where
  \<comment> \<open>\<open>np.unique\<close>: the distinct values, ascending\<close>
  "np_unique xs = sort (remdups xs)"

definition np_unique_counts :: "int list \<Rightarrow> int list \<times> nat list" where
  \<comment> \<open>\<open>np.unique(xs, return_counts=True)\<close>\<close>
  "np_unique_counts xs = (np_unique xs, map (count_list xs) (np_unique xs))"

definition first_max_index :: "nat list \<Rightarrow> nat" where
  \<comment> \<open>the first index at which a non-empty list of counts or sizes has its maximum\<close>
  "first_max_index cs = length (takeWhile (\<lambda>x. x \<noteq> fold max cs 0) cs)"

definition np_argmax :: "nat list \<Rightarrow> error + nat" where
  \<comment> \<open>\<open>np.argmax\<close>: the first index of the maximum; an empty array raises ValueError\<close>
  "np_argmax cs = (if cs = [] then Inl ValueError else Inr (first_max_index cs))"

definition np_where_eq :: "grid \<Rightarrow> int \<Rightarrow> pos list" where
  \<comment> \<open>\<open>np.where(g == v)\<close>: the coordinates of the pixels equal to \<open>v\<close>, row-major\<close>
  "np_where_eq g v =
     concat (map (\<lambda>r. map (\<lambda>c. (r, c)) (filter (\<lambda>c. g ! r ! c = v) [0..<length (g ! r)]))
                 [0..<length g])"

definition in_bounds :: "grid \<Rightarrow> pos \<Rightarrow> bool" where
  "in_bounds g p = (fst p < length g \<and> snd p < length (g ! fst p))"

definition pixel :: "grid \<Rightarrow> pos \<Rightarrow> int" where
  "pixel g p = g ! fst p ! snd p"

definition take_at :: "grid \<Rightarrow> pos list \<Rightarrow> error + int list" where
  \<comment> \<open>\<open>g[ps]\<close> with the coordinate arrays of \<open>np.where\<close>: a coordinate outside \<open>g\<close>
      raises IndexError\<close>
  "take_at g ps = (if list_all (in_bounds g) ps then Inr (map (pixel g) ps) else Inl IndexError)"

definition fill :: "grid \<Rightarrow> pos list \<Rightarrow> int \<Rightarrow> grid" where
  "fill g ps v =
     map (\<lambda>r. map (\<lambda>c. if (r, c) \<in> set ps then v else g ! r ! c) [0..<length (g ! r)])
         [0..<length g]"

definition put_at :: "grid \<Rightarrow> pos list \<Rightarrow> int \<Rightarrow> error + grid" where
  \<comment> \<open>\<open>g[ps] = v\<close>: numpy checks every coordinate before it writes\<close>
  "put_at g ps v = (if list_all (in_bounds g) ps then Inr (fill g ps v) else Inl IndexError)"

definition take_mask :: "grid \<Rightarrow> grid \<Rightarrow> int \<Rightarrow> error + int list" where
  \<comment> \<open>\<open>g[m == v]\<close>: a boolean index of another shape raises IndexError\<close>
  "take_mask g m v =
     (if shape g = shape m then Inr (map (pixel g) (np_where_eq m v)) else Inl IndexError)"

definition fill_eq :: "grid \<Rightarrow> int \<Rightarrow> int \<Rightarrow> grid" where
  \<comment> \<open>\<open>g[g == v] = x\<close>\<close>
  "fill_eq g v x = map (map (\<lambda>y. if y = v then x else y)) g"

section \<open>Compute4Mask\<close>

definition get_unique_objects :: "grid \<Rightarrow> int list" where
  \<comment> \<open>\<open>list(np.unique(active_mask)[1:])\<close>: the slice drops the first, that is the
      smallest, of the distinct values\<close>
  "get_unique_objects active_mask = drop 1 (np_unique (flatten active_mask))"

definition majority_class :: "int list \<Rightarrow> error + int" where
  \<comment> \<open>\<open>class_vals, counts = np.unique(vals, return_counts=True)\<close> and then
      \<open>class_vals[np.argmax(counts)]\<close>, as \<open>add_contour\<close> and the last branch of
      \<open>compute_new_labels_mask\<close> both do\<close>
  "majority_class vals =
     (case np_unique_counts vals of
        (class_vals, counts) \<Rightarrow>
          (case np_argmax counts of
             Inl e \<Rightarrow> Inl e
           | Inr k \<Rightarrow> Inr (class_vals ! k)))"

fun add_contour_loop :: "grid \<Rightarrow> grid \<Rightarrow> int list \<Rightarrow> error + grid" where
  "add_contour_loop labels_mask instance_mask [] = Inr labels_mask"
| "add_contour_loop labels_mask instance_mask (instance_id # ids) =
     (let where_instances = np_where_eq instance_mask instance_id in
      case take_at labels_mask where_instances of
        Inl e \<Rightarrow> Inl e
      | Inr vals \<Rightarrow>
          (case majority_class vals of
             Inl e \<Rightarrow> Inl e
           | Inr class_id \<Rightarrow>
               (case put_at labels_mask where_instances class_id of
                  Inl e \<Rightarrow> Inl e
                | Inr labels_mask' \<Rightarrow> add_contour_loop labels_mask' instance_mask ids)))"

definition add_contour :: "grid \<Rightarrow> grid \<Rightarrow> error + grid" where
  "add_contour labels_mask instance_mask =
     add_contour_loop labels_mask instance_mask (get_unique_objects instance_mask)"

fun compute_new_instance_mask_loop :: "grid \<Rightarrow> grid \<Rightarrow> int list \<Rightarrow> error + grid" where
  "compute_new_instance_mask_loop labels_mask instance_mask [] = Inr instance_mask"
| "compute_new_instance_mask_loop labels_mask instance_mask (instance_id # ids) =
     (case take_mask labels_mask instance_mask instance_id of
        Inl e \<Rightarrow> Inl e
      | Inr vals \<Rightarrow>
          (let unique_items_in_class_mask = np_unique vals in
           if length unique_items_in_class_mask = 1 \<and> unique_items_in_class_mask ! 0 = 0
           then compute_new_instance_mask_loop labels_mask
                  (fill_eq instance_mask instance_id 0) ids
           else compute_new_instance_mask_loop labels_mask instance_mask ids))"

definition compute_new_instance_mask :: "grid \<Rightarrow> grid \<Rightarrow> error + grid" where
  "compute_new_instance_mask labels_mask instance_mask =
     compute_new_instance_mask_loop labels_mask instance_mask
       (get_unique_objects instance_mask)"

fun compute_new_labels_mask_loop ::
  "dtype \<Rightarrow> grid \<Rightarrow> grid \<Rightarrow> grid \<Rightarrow> int list \<Rightarrow> grid \<Rightarrow> int list \<Rightarrow> error + grid"
  where
  "compute_new_labels_mask_loop labels_dtype labels_mask instance_mask original_instance_mask
     old_instances new_labels_mask [] = Inr new_labels_mask"
| "compute_new_labels_mask_loop labels_dtype labels_mask instance_mask original_instance_mask
     old_instances new_labels_mask (instance_id # ids) =
     (let where_instance = np_where_eq instance_mask instance_id in
      if instance_id = 0
      then compute_new_labels_mask_loop labels_dtype labels_mask instance_mask original_instance_mask
             old_instances new_labels_mask ids
      else if instance_id \<notin> set old_instances
      then (case put_at new_labels_mask where_instance (astype labels_dtype instance_id) of
              Inl e \<Rightarrow> Inl e
            | Inr new_labels_mask' \<Rightarrow>
                compute_new_labels_mask_loop labels_dtype labels_mask instance_mask original_instance_mask
                  old_instances new_labels_mask' ids)
      else
        (let where_instance_orig = np_where_eq original_instance_mask instance_id in
         case take_at labels_mask where_instance of
           Inl e \<Rightarrow> Inl e
         | Inr vals \<Rightarrow>
             (let num_classes = np_unique vals in
              if length num_classes = 1
              then (case put_at new_labels_mask where_instance (num_classes ! 0) of
                      Inl e \<Rightarrow> Inl e
                    | Inr new_labels_mask' \<Rightarrow>
                        compute_new_labels_mask_loop labels_dtype labels_mask instance_mask
                          original_instance_mask old_instances new_labels_mask' ids)
              else
                (case take_at labels_mask where_instance_orig of
                   Inl e \<Rightarrow> Inl e
                 | Inr orig_vals \<Rightarrow>
                     (case majority_class orig_vals of
                        Inl e \<Rightarrow> Inl e
                      | Inr old_class_id \<Rightarrow>
                          (case put_at new_labels_mask where_instance old_class_id of
                             Inl e \<Rightarrow> Inl e
                           | Inr new_labels_mask' \<Rightarrow>
                               compute_new_labels_mask_loop labels_dtype labels_mask instance_mask
                                 original_instance_mask old_instances new_labels_mask'
                                 ids))))))"

definition compute_new_labels_mask ::
  "dtype \<Rightarrow> grid \<Rightarrow> grid \<Rightarrow> grid \<Rightarrow> int list \<Rightarrow> error + grid" where
  \<comment> \<open>\<open>labels_dtype\<close> is \<open>labels_mask.dtype\<close>, which \<open>np.zeros_like(labels_mask)\<close> gives
      to the new class mask\<close>
  "compute_new_labels_mask labels_dtype labels_mask instance_mask original_instance_mask
     old_instances =
     compute_new_labels_mask_loop labels_dtype labels_mask instance_mask original_instance_mask
       old_instances (zeros_like labels_mask) (np_unique (flatten instance_mask))"

definition eq_mask :: "grid \<Rightarrow> int \<Rightarrow> bool list list" where
  \<comment> \<open>\<open>instance_mask == instance_id\<close>\<close>
  "eq_mask g v = map (map (\<lambda>x. x = v)) g"

text \<open>
  \<open>skimage.measure.label\<close> is a library function; \<open>assert_consistent_labels\<close> takes it
  as the parameter \<open>label\<close>, from a boolean image to the image of its component numbers.
\<close>

fun assert_consistent_labels_loop ::
  "(bool list list \<Rightarrow> grid) \<Rightarrow> grid \<Rightarrow> grid \<Rightarrow> int list
     \<Rightarrow> bool \<times> bool \<times> int list \<times> int list
     \<Rightarrow> error + (bool \<times> bool \<times> int list \<times> int list)" where
  "assert_consistent_labels_loop label instance_mask class_mask [] st = Inr st"
| "assert_consistent_labels_loop label instance_mask class_mask (instance_id # ids)
     (user_annot_error, mask_mismatch_error, faulty_ids_annot, faulty_ids_missmatch) =
     (case (if length (np_unique (flatten (label (eq_mask instance_mask instance_id)))) > 2
            then (True, faulty_ids_annot @ [instance_id])
            else (user_annot_error, faulty_ids_annot)) of
        (user_annot_error', faulty_ids_annot') \<Rightarrow>
          (case take_at class_mask (np_where_eq instance_mask instance_id) of
             Inl e \<Rightarrow> Inl e
           | Inr vals \<Rightarrow>
               (if length (np_unique vals) > 1
                then assert_consistent_labels_loop label instance_mask class_mask ids
                       (user_annot_error', True, faulty_ids_annot',
                        faulty_ids_missmatch @ [instance_id])
                else assert_consistent_labels_loop label instance_mask class_mask ids
                       (user_annot_error', mask_mismatch_error, faulty_ids_annot',
                        faulty_ids_missmatch))))"

definition assert_consistent_labels ::
  "(bool list list \<Rightarrow> grid) \<Rightarrow> grid list
     \<Rightarrow> error + (bool \<times> bool \<times> int list \<times> int list)" where
  \<comment> \<open>\<open>mask[0]\<close> and \<open>mask[1]\<close> raise IndexError on a mask with fewer than two channels\<close>
  "assert_consistent_labels label mask' =
     (if length mask' < 2 then Inl IndexError
      else assert_consistent_labels_loop label (mask' ! 0) (mask' ! 1)
             (get_unique_objects (mask' ! 0)) (False, False, [], []))"

text \<open>
  \<open>get_contours\<close> calls \<open>skimage.measure.find_contours\<close> and
  \<open>skimage.draw.polygon_perimeter\<close>. They are library functions over floating-point
  polygons and are parameters of the model: a contour is a value of the type \<open>'c\<close>,
  \<open>contour_rows\<close> is its \<open>shape[0]\<close> and \<open>astype_int\<close> its \<open>astype(int)\<close>.
  \<open>polygon_perimeter\<close> is given the shape of the image and returns the coordinates
  \<open>rr, cc\<close> it keeps. Whatever is raised inside the \<open>try\<close> block is caught by the bare
  \<open>except\<close>, which prints a line; the printed lines are the second component of the
  result.
\<close>

record ('c, 'l) skimage =
  find_contours :: "grid \<Rightarrow> 'l \<Rightarrow> error + 'c list"
  polygon_perimeter :: "'c \<Rightarrow> nat \<times> nat \<Rightarrow> error + pos list"
  contour_rows :: "'c \<Rightarrow> nat"
  astype_int :: "'c \<Rightarrow> 'c"

definition single_obj_mask :: "grid \<Rightarrow> int \<Rightarrow> grid" where
  \<comment> \<open>\<open>np.zeros_like(instance_mask)\<close> with the pixels of the object set to 1\<close>
  "single_obj_mask instance_mask instance_id =
     map (map (\<lambda>x. if x = instance_id then 1 else 0)) instance_mask"

definition shape2 :: "grid \<Rightarrow> nat \<times> nat" where
  "shape2 g = (length g, case g of [] \<Rightarrow> 0 | row # _ \<Rightarrow> length row)"

definition perimeter ::
  "('c, 'l) skimage \<Rightarrow> 'l \<Rightarrow> grid \<Rightarrow> grid \<Rightarrow> int \<Rightarrow> error + pos list" where
  \<comment> \<open>the \<open>try\<close> block up to the call of \<open>polygon_perimeter\<close>; \<open>contours[0]\<close> raises
      IndexError when no contour was found\<close>
  "perimeter sk contours_level instance_mask contour_mask instance_id =
     (case find_contours sk (single_obj_mask instance_mask instance_id) contours_level of
        Inl e \<Rightarrow> Inl e
      | Inr contours \<Rightarrow>
          (case (if length contours > 1
                 then (let contour_sizes = map (contour_rows sk) contours
                       in Inr (astype_int sk (contours ! first_max_index contour_sizes)))
                 else (case contours of [] \<Rightarrow> Inl IndexError | c # _ \<Rightarrow> Inr c)) of
             Inl e \<Rightarrow> Inl e
           | Inr contour \<Rightarrow> polygon_perimeter sk contour (shape2 contour_mask)))"

definition draw_contour ::
  "('c, 'l) skimage \<Rightarrow> 'l \<Rightarrow> grid \<Rightarrow> grid \<Rightarrow> int \<Rightarrow> error + grid" where
  \<comment> \<open>the whole \<open>try\<close> block: \<open>contour_mask[rr, cc] = instance_id\<close> is its last statement\<close>
  "draw_contour sk contours_level instance_mask contour_mask instance_id =
     (case perimeter sk contours_level instance_mask contour_mask instance_id of
        Inl e \<Rightarrow> Inl e
      | Inr rrcc \<Rightarrow> put_at contour_mask rrcc instance_id)"

definition warning :: "int \<Rightarrow> string \<times> int" where
  "warning instance_id = (''Could not create contour for instance id'', instance_id)"

fun get_contours_loop ::
  "('c, 'l) skimage \<Rightarrow> 'l \<Rightarrow> grid \<Rightarrow> grid \<times> (string \<times> int) list \<Rightarrow> int list
     \<Rightarrow> grid \<times> (string \<times> int) list" where
  "get_contours_loop sk contours_level instance_mask st [] = st"
| "get_contours_loop sk contours_level instance_mask (contour_mask, printed)
     (instance_id # ids) =
     (case draw_contour sk contours_level instance_mask contour_mask instance_id of
        Inl e \<Rightarrow>
          get_contours_loop sk contours_level instance_mask
            (contour_mask, printed @ [warning instance_id]) ids
      | Inr contour_mask' \<Rightarrow>
          get_contours_loop sk contours_level instance_mask (contour_mask', printed) ids)"

definition get_contours ::
  "('c, 'l) skimage \<Rightarrow> grid \<Rightarrow> 'l \<Rightarrow> grid \<times> (string \<times> int) list" where
  "get_contours sk instance_mask contours_level =
     get_contours_loop sk contours_level instance_mask (zeros_like instance_mask, [])
       (get_unique_objects instance_mask)"

definition traced :: "('c, 'l) skimage \<Rightarrow> 'l \<Rightarrow> grid \<Rightarrow> int \<Rightarrow> pos list option" where
  \<comment> \<open>the pixels the \<open>try\<close> block writes for one object on a contour mask of the shape of
      the instance mask, \<open>None\<close> when it raises\<close>
  "traced sk contours_level instance_mask instance_id =
     (case perimeter sk contours_level instance_mask (zeros_like instance_mask) instance_id of
        Inl e \<Rightarrow> None
      | Inr rrcc \<Rightarrow> if list_all (in_bounds instance_mask) rrcc then Some rrcc else None)"

section \<open>Facts about the numpy operations\<close>

lemma np_unique_set [simp]: "set (np_unique xs) = set xs"
  by (simp add: np_unique_def)

lemma np_unique_sorted: "sorted (np_unique xs)"
  by (simp add: np_unique_def)

lemma np_unique_distinct: "distinct (np_unique xs)"
  by (simp add: np_unique_def)

lemma np_unique_Nil [simp]: "np_unique xs = [] \<longleftrightarrow> xs = []"
  by (metis np_unique_set set_empty)

lemma fold_max_bounds:
  "(a::nat) \<le> fold max cs a \<and> (\<forall>x \<in> set cs. x \<le> fold max cs a)"
proof (induction cs arbitrary: a)
  case Nil
  show ?case by simp
next
  case (Cons c cs)
  have "max c a \<le> fold max cs (max c a)" using Cons by blast
  moreover have "\<forall>x \<in> set cs. x \<le> fold max cs (max c a)" using Cons by blast
  ultimately show ?case by simp
qed

lemma fold_max_in: "fold max cs (a::nat) \<in> insert a (set cs)"
proof (induction cs arbitrary: a)
  case Nil
  show ?case by simp
next
  case (Cons c cs)
  have "fold max cs (max c a) \<in> insert (max c a) (set cs)" by (rule Cons)
  moreover have "max c a = a \<or> max c a = c" by (simp add: max_def)
  ultimately show ?case by auto
qed

lemma fold_max_ge: "x \<in> set cs \<Longrightarrow> x \<le> fold max cs (0::nat)"
  using fold_max_bounds [of 0 cs] by blast

lemma fold_max_mem:
  assumes "cs \<noteq> []"
  shows "fold max cs (0::nat) \<in> set cs"
proof (cases "fold max cs 0 = 0")
  case True
  obtain c where c: "c \<in> set cs" using assms by (cases cs) auto
  then have "c \<le> 0" using fold_max_ge [OF c] True by simp
  then show ?thesis using c True by simp
next
  case False
  then show ?thesis using fold_max_in [of cs 0] by simp
qed

lemma takeWhile_stops:
  "x \<in> set xs \<Longrightarrow> \<not> P x \<Longrightarrow> length (takeWhile P xs) < length xs"
  by (induction xs) auto

lemma first_max_index_props:
  assumes "cs \<noteq> []"
  shows "first_max_index cs < length cs"
    and "\<forall>j < length cs. cs ! j \<le> cs ! first_max_index cs"
    and "\<forall>j < first_max_index cs. cs ! j < cs ! first_max_index cs"
proof -
  define m where "m = fold max cs 0"
  define k where "k = first_max_index cs"
  have kdef: "k = length (takeWhile (\<lambda>x. x \<noteq> m) cs)"
    by (simp add: k_def m_def first_max_index_def)
  have mem: "m \<in> set cs" unfolding m_def using assms by (rule fold_max_mem)
  have lt: "k < length cs"
    unfolding kdef by (rule takeWhile_stops [OF mem]) simp
  have "\<not> (cs ! k \<noteq> m)"
    unfolding kdef by (rule nth_length_takeWhile) (use lt kdef in simp)
  then have at: "cs ! k = m" by simp
  have ge: "cs ! j \<le> m" if "j < length cs" for j
    unfolding m_def by (rule fold_max_ge) (use that in simp)
  have ne: "cs ! j \<noteq> m" if "j < k" for j
  proof -
    have "takeWhile (\<lambda>x. x \<noteq> m) cs ! j = cs ! j"
      by (rule takeWhile_nth) (use that kdef in simp)
    moreover have "takeWhile (\<lambda>x. x \<noteq> m) cs ! j \<in> set (takeWhile (\<lambda>x. x \<noteq> m) cs)"
      by (rule nth_mem) (use that kdef in simp)
    ultimately have "cs ! j \<in> set (takeWhile (\<lambda>x. x \<noteq> m) cs)" by simp
    then show ?thesis by (rule set_takeWhileD [THEN conjunct2])
  qed
  show "first_max_index cs < length cs" using lt by (simp add: k_def)
  show "\<forall>j < length cs. cs ! j \<le> cs ! first_max_index cs"
    using ge at by (simp add: k_def)
  show "\<forall>j < first_max_index cs. cs ! j < cs ! first_max_index cs"
  proof (intro allI impI)
    fix j assume "j < first_max_index cs"
    then have j: "j < k" by (simp add: k_def)
    then have "cs ! j \<noteq> m" by (rule ne)
    moreover have "cs ! j \<le> m" using j lt by (intro ge) simp
    ultimately show "cs ! j < cs ! first_max_index cs" using at by (simp add: k_def)
  qed
qed

lemma majority_class_props:
  assumes "vals \<noteq> []"
  shows "\<exists>m. majority_class vals = Inr m \<and> m \<in> set vals
           \<and> (\<forall>x. count_list vals x \<le> count_list vals m)
           \<and> (\<forall>x. count_list vals x = count_list vals m \<longrightarrow> m \<le> x)"
proof -
  define us where "us = np_unique vals"
  define cs where "cs = map (count_list vals) us"
  define k where "k = first_max_index cs"
  define m where "m = us ! k"
  have len: "length cs = length us" by (simp add: cs_def)
  have ne: "cs \<noteq> []" using assms by (simp add: cs_def us_def)
  have P1: "k < length cs"
    and P2: "\<And>j. j < length cs \<Longrightarrow> cs ! j \<le> cs ! k"
    and P3: "\<And>j. j < k \<Longrightarrow> cs ! j < cs ! k"
    using first_max_index_props [OF ne] by (simp_all add: k_def)
  have k: "k < length us" using P1 len by simp
  have csj: "cs ! j = count_list vals (us ! j)" if "j < length us" for j
    using that by (simp add: cs_def)
  have eq: "majority_class vals = Inr m"
    using ne by (simp add: majority_class_def np_unique_counts_def np_argmax_def
        cs_def us_def k_def m_def)
  have "m \<in> set us" unfolding m_def using k by (rule nth_mem)
  then have mem: "m \<in> set vals" by (simp add: us_def)
  have pos: "0 < count_list vals m" using mem by (metis count_list_0_iff gr0I)
  have idx: "\<exists>j < length us. us ! j = x" if "x \<in> set vals" for x
  proof -
    have "x \<in> set us" using that by (simp add: us_def)
    then show ?thesis by (simp add: in_set_conv_nth)
  qed
  have max: "count_list vals x \<le> count_list vals m" for x
  proof (cases "x \<in> set vals")
    case True
    then obtain j where j: "j < length us" "us ! j = x" using idx by blast
    have "cs ! j \<le> cs ! k" by (rule P2) (use j len in simp)
    then show ?thesis using j k csj by (simp add: m_def)
  next
    case False
    then have "count_list vals x = 0" by (simp add: count_list_0_iff)
    then show ?thesis by simp
  qed
  have tie: "m \<le> x" if t: "count_list vals x = count_list vals m" for x
  proof -
    have "count_list vals x \<noteq> 0" using t pos by simp
    then have "x \<in> set vals" by (simp add: count_list_0_iff)
    then obtain j where j: "j < length us" "us ! j = x" using idx by blast
    have "\<not> j < k"
    proof
      assume "j < k"
      then have "cs ! j < cs ! k" by (rule P3)
      then show False using j k t csj by (simp add: m_def)
    qed
    then have kj: "k \<le> j" by simp
    have "sorted us" unfolding us_def by (rule np_unique_sorted)
    then have "us ! k \<le> us ! j" using kj j(1) by (rule sorted_nth_mono)
    then show ?thesis using j by (simp add: m_def)
  qed
  show ?thesis
  proof (intro exI [of _ m] conjI allI impI)
    show "majority_class vals = Inr m" by (rule eq)
    show "m \<in> set vals" by (rule mem)
    show "count_list vals x \<le> count_list vals m" for x by (rule max)
    show "m \<le> x" if "count_list vals x = count_list vals m" for x
      using that by (rule tie)
  qed
qed

lemma majority_class_replicate:
  assumes "0 < n"
  shows "majority_class (replicate n x) = Inr x"
proof -
  have "replicate n x \<noteq> []" using assms by simp
  from majority_class_props [OF this]
  obtain m where "majority_class (replicate n x) = Inr m" "m \<in> set (replicate n x)"
    by blast
  then show ?thesis by simp
qed

lemma where_set:
  "p \<in> set (np_where_eq g v) \<longleftrightarrow> in_bounds g p \<and> pixel g p = v"
  by (cases p) (auto simp: np_where_eq_def in_bounds_def pixel_def)

lemma in_bounds_shape: "shape g = shape h \<Longrightarrow> in_bounds g p = in_bounds h p"
proof -
  assume a: "shape g = shape h"
  then have l: "length g = length h" unfolding shape_def by (rule map_eq_imp_length_eq)
  have "length (g ! r) = length (h ! r)" if "r < length g" for r
  proof -
    have "map length g ! r = map length h ! r" using a by (simp add: shape_def)
    then show ?thesis using that l by simp
  qed
  then show ?thesis using l by (auto simp: in_bounds_def)
qed

lemma shape_fill [simp]: "shape (fill g ps v) = shape g"
  by (auto simp: shape_def fill_def intro: nth_equalityI)

lemma pixel_fill:
  "in_bounds g p \<Longrightarrow> pixel (fill g ps v) p = (if p \<in> set ps then v else pixel g p)"
  by (cases p) (simp add: in_bounds_def pixel_def fill_def)

lemma shape_zeros_like [simp]: "shape (zeros_like g) = shape g"
  by (simp add: shape_def zeros_like_def)

lemma pixel_zeros_like: "in_bounds g p \<Longrightarrow> pixel (zeros_like g) p = 0"
  by (simp add: in_bounds_def pixel_def zeros_like_def)

lemma grid_eqI:
  assumes "shape g = shape h" and "\<And>p. in_bounds g p \<Longrightarrow> pixel g p = pixel h p"
  shows "g = h"
proof (rule nth_equalityI)
  show l: "length g = length h"
    using assms(1) unfolding shape_def by (rule map_eq_imp_length_eq)
  fix r assume r: "r < length g"
  have "map length g ! r = map length h ! r" using assms(1) by (simp add: shape_def)
  then have lr: "length (g ! r) = length (h ! r)" using r l by simp
  show "g ! r = h ! r"
  proof (rule nth_equalityI)
    show "length (g ! r) = length (h ! r)" by (rule lr)
    fix c assume c: "c < length (g ! r)"
    have "in_bounds g (r, c)" using r c by (simp add: in_bounds_def)
    then have "pixel g (r, c) = pixel h (r, c)" by (rule assms(2))
    then show "g ! r ! c = h ! r ! c" by (simp add: pixel_def)
  qed
qed

lemma flatten_set:
  "v \<in> set (flatten g) \<longleftrightarrow> (\<exists>p. in_bounds g p \<and> pixel g p = v)"
proof
  assume "v \<in> set (flatten g)"
  then obtain row where row: "row \<in> set g" "v \<in> set row" by (auto simp: flatten_def)
  then obtain r where r: "r < length g" "g ! r = row" by (auto simp: in_set_conv_nth)
  from row obtain c where c: "c < length row" "row ! c = v" by (auto simp: in_set_conv_nth)
  have "in_bounds g (r, c) \<and> pixel g (r, c) = v"
    using r c by (simp add: in_bounds_def pixel_def)
  then show "\<exists>p. in_bounds g p \<and> pixel g p = v" by blast
next
  assume "\<exists>p. in_bounds g p \<and> pixel g p = v"
  then obtain p where p: "in_bounds g p" "pixel g p = v" by blast
  have "g ! fst p \<in> set g" using p(1) by (simp add: in_bounds_def)
  moreover have "g ! fst p ! snd p \<in> set (g ! fst p)" using p(1) by (simp add: in_bounds_def)
  ultimately show "v \<in> set (flatten g)" using p(2) by (auto simp: flatten_def pixel_def)
qed

lemma where_nonempty:
  "v \<in> set (flatten g) \<Longrightarrow> np_where_eq g v \<noteq> []"
proof -
  assume "v \<in> set (flatten g)"
  then obtain p where "in_bounds g p" "pixel g p = v" using flatten_set by blast
  then have "p \<in> set (np_where_eq g v)" by (simp add: where_set)
  then show ?thesis by auto
qed

lemma where_in_bounds:
  assumes "shape h = shape g"
  shows "list_all (in_bounds h) (np_where_eq g v)"
proof -
  have "in_bounds h p" if "p \<in> set (np_where_eq g v)" for p
  proof -
    have "in_bounds g p" using that by (simp add: where_set)
    then show ?thesis using in_bounds_shape [OF assms, of p] by simp
  qed
  then show ?thesis by (simp add: list_all_iff)
qed

lemma take_at_where:
  "shape h = shape g \<Longrightarrow> take_at h (np_where_eq g v) = Inr (map (pixel h) (np_where_eq g v))"
  by (simp add: take_at_def where_in_bounds)

lemma put_at_where:
  "shape h = shape g \<Longrightarrow> put_at h (np_where_eq g v) x = Inr (fill h (np_where_eq g v) x)"
  by (simp add: put_at_def where_in_bounds)

lemma vals_fill_other:
  assumes "shape h = shape g" and "w \<noteq> v"
  shows "map (pixel (fill h (np_where_eq g v) x)) (np_where_eq g w) = map (pixel h) (np_where_eq g w)"
proof (rule map_cong [OF refl])
  fix p assume p: "p \<in> set (np_where_eq g w)"
  then have "in_bounds g p" by (simp add: where_set)
  then have b: "in_bounds h p" using in_bounds_shape [OF assms(1), of p] by simp
  have "p \<notin> set (np_where_eq g v)" using p assms(2) by (simp add: where_set)
  then show "pixel (fill h (np_where_eq g v) x) p = pixel h p" using b by (simp add: pixel_fill)
qed

lemma add_contour_loop_char:
  assumes "shape C = shape I" and "distinct ids" and "set ids \<subseteq> set (flatten I)"
  shows "\<exists>C'. add_contour_loop C I ids = Inr C' \<and> shape C' = shape I \<and>
           (\<forall>p. in_bounds I p \<longrightarrow>
              (if pixel I p \<in> set ids
               then majority_class (map (pixel C) (np_where_eq I (pixel I p))) = Inr (pixel C' p)
               else pixel C' p = pixel C p))"
  using assms
proof (induction ids arbitrary: C)
  case Nil
  then show ?case by simp
next
  case (Cons v ids)
  let ?w = "np_where_eq I v"
  have sh: "shape C = shape I" by (rule Cons.prems(1))
  have ne: "map (pixel C) ?w \<noteq> []" using Cons.prems(3) by (simp add: where_nonempty)
  from majority_class_props [OF ne] obtain m where m: "majority_class (map (pixel C) ?w) = Inr m"
    by blast
  let ?C1 = "fill C ?w m"
  have sh1: "shape ?C1 = shape I" using sh by simp
  have step: "add_contour_loop C I (v # ids) = add_contour_loop ?C1 I ids"
    using sh m by (simp add: take_at_where put_at_where)
  from Cons.IH [OF sh1] Cons.prems obtain C' where
    C': "add_contour_loop ?C1 I ids = Inr C'" "shape C' = shape I"
    and px: "\<And>p. in_bounds I p \<Longrightarrow>
              (if pixel I p \<in> set ids
               then majority_class (map (pixel ?C1) (np_where_eq I (pixel I p))) = Inr (pixel C' p)
               else pixel C' p = pixel ?C1 p)"
    by auto
  have "\<forall>p. in_bounds I p \<longrightarrow>
              (if pixel I p \<in> set (v # ids)
               then majority_class (map (pixel C) (np_where_eq I (pixel I p))) = Inr (pixel C' p)
               else pixel C' p = pixel C p)"
  proof (intro allI impI)
    fix p assume p: "in_bounds I p"
    have pc: "in_bounds C p" using p in_bounds_shape [OF sh, of p] by simp
    show "if pixel I p \<in> set (v # ids)
               then majority_class (map (pixel C) (np_where_eq I (pixel I p))) = Inr (pixel C' p)
               else pixel C' p = pixel C p"
    proof (cases "pixel I p \<in> set ids")
      case True
      then have neq: "pixel I p \<noteq> v" using Cons.prems(2) by auto
      have eq: "map (pixel ?C1) (np_where_eq I (pixel I p)) = map (pixel C) (np_where_eq I (pixel I p))"
        using sh neq by (rule vals_fill_other)
      have "majority_class (map (pixel ?C1) (np_where_eq I (pixel I p))) = Inr (pixel C' p)"
        using px [OF p] True by simp
      then have "majority_class (map (pixel C) (np_where_eq I (pixel I p))) = Inr (pixel C' p)"
        unfolding eq .
      then show ?thesis using True by simp
    next
      case False
      then have e: "pixel C' p = pixel ?C1 p" using px [OF p] by simp
      show ?thesis
      proof (cases "pixel I p = v")
        case True
        then have "p \<in> set ?w" using p by (simp add: where_set)
        then have "pixel ?C1 p = m" using pc by (simp add: pixel_fill)
        then show ?thesis using True e m by simp
      next
        case neq: False
        then have "p \<notin> set ?w" by (simp add: where_set)
        then have "pixel ?C1 p = pixel C p" using pc by (simp add: pixel_fill)
        then show ?thesis using neq False e by simp
      qed
    qed
  qed
  then show ?case using step C' by simp
qed

lemma get_unique_objects_distinct: "distinct (get_unique_objects g)"
  unfolding get_unique_objects_def by (rule distinct_drop) (rule np_unique_distinct)

lemma get_unique_objects_sorted: "sorted (get_unique_objects g)"
  unfolding get_unique_objects_def by (rule sorted_wrt_drop) (rule np_unique_sorted)

lemma get_unique_objects_subset: "set (get_unique_objects g) \<subseteq> set (flatten g)"
proof -
  have "set (drop 1 (np_unique (flatten g))) \<subseteq> set (np_unique (flatten g))"
    by (rule set_drop_subset)
  then show ?thesis by (simp add: get_unique_objects_def)
qed

lemma get_unique_objects_no_background:
  assumes "\<forall>v \<in> set (flatten g). 0 \<le> v"
  shows "0 \<notin> set (get_unique_objects g)"
proof
  assume z: "0 \<in> set (get_unique_objects g)"
  define us where "us = np_unique (flatten g)"
  have z': "0 \<in> set (drop 1 us)" using z by (simp add: get_unique_objects_def us_def)
  then obtain u rest where us: "us = u # rest" by (cases us) auto
  have srt: "sorted us" and dst: "distinct us"
    by (simp_all add: us_def np_unique_sorted np_unique_distinct)
  have r: "0 \<in> set rest" using z' us by simp
  then have "u \<le> 0" using srt us by simp
  moreover have "u \<noteq> 0" using dst us r by auto
  ultimately have "u < 0" by simp
  moreover have "u \<in> set (flatten g)"
  proof -
    have "u \<in> set us" using us by simp
    then show ?thesis by (simp add: us_def)
  qed
  ultimately show False using assms by fastforce
qed

lemma add_contour_char:
  assumes "shape C = shape I"
  shows "\<exists>C'. add_contour C I = Inr C' \<and> shape C' = shape I \<and>
           (\<forall>p. in_bounds I p \<longrightarrow>
              (if pixel I p \<in> set (get_unique_objects I)
               then majority_class (map (pixel C) (np_where_eq I (pixel I p))) = Inr (pixel C' p)
               else pixel C' p = pixel C p))"
  unfolding add_contour_def
  using assms get_unique_objects_distinct get_unique_objects_subset
  by (rule add_contour_loop_char)

lemma vals_uniform:
  assumes "\<And>p. p \<in> set ps \<Longrightarrow> pixel g p = x"
  shows "map (pixel g) ps = replicate (length ps) x"
  using assms by (induction ps) simp_all

section \<open>The unique object ids\<close>

text \<open>
  C1. \<open>get_unique_objects\<close> is claimed to return the distinct values of the mask other
  than 0. It returns the distinct values other than the smallest one: on the mask
  \<open>[[1,1],[1,1]]\<close>, which has one object and no background pixel, it returns the empty
  list and not \<open>[1]\<close>.
\<close>

theorem get_unique_objects_drops_smallest_id:
  "get_unique_objects [[1, 1], [1, 1]] = []"
  by (simp add: get_unique_objects_def np_unique_def flatten_def)

section \<open>The contour injector\<close>

text \<open>
  C7. \<open>add_contour\<close> is idempotent: on a class mask and an instance mask of the same
  shape the call returns a class mask, and a second call on that result and the same
  instance mask returns it unchanged.
\<close>

theorem add_contour_idempotent:
  assumes "shape C = shape I"
  shows "\<exists>C'. add_contour C I = Inr C' \<and> add_contour C' I = Inr C'"
proof -
  from add_contour_char [OF assms] obtain C' where
    r1: "add_contour C I = Inr C'" and sh1: "shape C' = shape I"
    and px1: "\<And>p. in_bounds I p \<Longrightarrow>
              (if pixel I p \<in> set (get_unique_objects I)
               then majority_class (map (pixel C) (np_where_eq I (pixel I p))) = Inr (pixel C' p)
               else pixel C' p = pixel C p)"
    by blast
  from add_contour_char [OF sh1] obtain C'' where
    r2: "add_contour C' I = Inr C''" and sh2: "shape C'' = shape I"
    and px2: "\<And>p. in_bounds I p \<Longrightarrow>
              (if pixel I p \<in> set (get_unique_objects I)
               then majority_class (map (pixel C') (np_where_eq I (pixel I p))) = Inr (pixel C'' p)
               else pixel C'' p = pixel C' p)"
    by blast
  have "C'' = C'"
  proof (rule grid_eqI)
    show "shape C'' = shape C'" using sh1 sh2 by simp
    fix p assume "in_bounds C'' p"
    then have p: "in_bounds I p" using in_bounds_shape [OF sh2, of p] by simp
    show "pixel C'' p = pixel C' p"
    proof (cases "pixel I p \<in> set (get_unique_objects I)")
      case True
      let ?w = "np_where_eq I (pixel I p)"
      have m1: "majority_class (map (pixel C) ?w) = Inr (pixel C' p)"
        using px1 [OF p] True by simp
      have same: "pixel C' q = pixel C' p" if "q \<in> set ?w" for q
      proof -
        have q: "in_bounds I q" "pixel I q = pixel I p" using that by (simp_all add: where_set)
        have "majority_class (map (pixel C) ?w) = Inr (pixel C' q)"
          using px1 [OF q(1)] True q(2) by simp
        then show ?thesis using m1 by simp
      qed
      have "p \<in> set ?w" using p by (simp add: where_set)
      then have len: "0 < length ?w" by (cases ?w) auto
      have "map (pixel C') ?w = replicate (length ?w) (pixel C' p)"
        by (rule vals_uniform) (rule same)
      then have "majority_class (map (pixel C') ?w) = Inr (pixel C' p)"
        using majority_class_replicate [OF len] by simp
      moreover have "majority_class (map (pixel C') ?w) = Inr (pixel C'' p)"
        using px2 [OF p] True by simp
      ultimately show ?thesis by simp
    next
      case False
      then show ?thesis using px2 [OF p] by simp
    qed
  qed
  then show ?thesis using r1 r2 by simp
qed

theorem add_contour_idempotent_witness:
  "\<exists>C'. add_contour [[5, 5, 0], [0, 7, 3]] [[1, 1, 0], [0, 2, 2]] = Inr C'
        \<and> add_contour C' [[1, 1, 0], [0, 2, 2]] = Inr C'"
proof -
  have h: "shape [[5, 5, 0], [0, 7, 3]] = shape [[1, 1, 0], [0, 2, 2]]"
    by (simp add: shape_def)
  show ?thesis by (rule add_contour_idempotent [OF h])
qed

text \<open>
  C9. \<open>add_contour\<close> leaves the class value of every background pixel as it was. An
  instance mask holds 0 at a background pixel and a positive object id elsewhere, so no
  pixel of it is negative.
\<close>

theorem add_contour_keeps_background:
  assumes "shape C = shape I" and "\<forall>v \<in> set (flatten I). 0 \<le> v"
  shows "\<exists>C'. add_contour C I = Inr C' \<and>
           (\<forall>p. in_bounds I p \<and> pixel I p = 0 \<longrightarrow> pixel C' p = pixel C p)"
proof -
  from add_contour_char [OF assms(1)] obtain C' where
    r1: "add_contour C I = Inr C'"
    and px1: "\<And>p. in_bounds I p \<Longrightarrow>
              (if pixel I p \<in> set (get_unique_objects I)
               then majority_class (map (pixel C) (np_where_eq I (pixel I p))) = Inr (pixel C' p)
               else pixel C' p = pixel C p)"
    by blast
  have nz: "0 \<notin> set (get_unique_objects I)"
    using assms(2) by (rule get_unique_objects_no_background)
  have "pixel C' p = pixel C p" if "in_bounds I p \<and> pixel I p = 0" for p
    using px1 [of p] that nz by simp
  then show ?thesis using r1 by blast
qed

theorem add_contour_keeps_background_witness:
  "\<exists>C'. add_contour [[5, 9, 8], [0, 7, 3]] [[1, 1, 0], [0, 2, 2]] = Inr C'
        \<and> pixel C' (0, 2) = 8 \<and> pixel C' (1, 0) = 0"
proof -
  have h1: "shape [[5, 9, 8], [0, 7, 3]] = shape [[1, 1, 0], [0, 2, 2]]"
    by (simp add: shape_def)
  have h2: "\<forall>v \<in> set (flatten [[1, 1, 0], [0, 2, 2 :: int]]). 0 \<le> v"
    by (simp add: flatten_def)
  from add_contour_keeps_background [OF h1 h2] obtain C' where
    r: "add_contour [[5, 9, 8], [0, 7, 3]] [[1, 1, 0], [0, 2, 2]] = Inr C'"
    and px: "\<And>p. in_bounds [[1, 1, 0], [0, 2, 2]] p \<and> pixel [[1, 1, 0], [0, 2, 2]] p = 0
               \<Longrightarrow> pixel C' p = pixel [[5, 9, 8], [0, 7, 3]] p"
    by blast
  have "pixel C' (0, 2) = 8" using px [of "(0, 2)"] by (simp add: in_bounds_def pixel_def)
  moreover have "pixel C' (1, 0) = 0" using px [of "(1, 0)"] by (simp add: in_bounds_def pixel_def)
  ultimately show ?thesis using r by blast
qed

text \<open>
  C3. After \<open>add_contour\<close> every object of the instance mask is claimed to have one class
  value. The object with the smallest id is not in the list that \<open>get_unique_objects\<close>
  returns when the instance mask has no background pixel, and \<open>add_contour\<close> leaves its
  pixels as they were: on the instance mask \<open>[[1,1]]\<close> and the class mask \<open>[[3,9]]\<close>
  object 1 keeps the two class values 3 and 9.
\<close>

theorem add_contour_skips_smallest_id:
  "add_contour [[3, 9]] [[1, 1]] = Inr [[3, 9]]"
  by (simp add: add_contour_def get_unique_objects_def np_unique_def flatten_def)

text \<open>
  C4. \<open>compute_new_instance_mask\<close> is claimed to zero out every object whose pixels are
  all background in the edited class mask. On the instance mask \<open>[[1,1]]\<close>, without a
  background pixel, and the class mask \<open>[[0,0]]\<close> object 1 is not in the list of
  \<open>get_unique_objects\<close> and stays in the result.
\<close>

theorem compute_new_instance_mask_keeps_smallest_id:
  "compute_new_instance_mask [[0, 0]] [[1, 1]] = Inr [[1, 1]]"
  by (simp add: compute_new_instance_mask_def get_unique_objects_def np_unique_def flatten_def)

text \<open>
  C2. On the mask pair with the instance channel \<open>[[1,1],[1,1]]\<close> and the class channel
  \<open>[[3,3],[3,9]]\<close> the validator is claimed to report a mismatch for object 1. The
  instance channel has no background pixel, \<open>get_unique_objects\<close> returns no id for it,
  the loop body never runs, and no error is reported, whatever \<open>label\<close> computes.
\<close>

theorem assert_consistent_labels_misses_mismatch:
  "assert_consistent_labels label [[[1, 1], [1, 1]], [[3, 3], [3, 9]]]
     = Inr (False, False, [], [])"
  by (simp add: assert_consistent_labels_def get_unique_objects_def np_unique_def flatten_def)

section \<open>The consistency validator\<close>

lemma assert_consistent_labels_loop_char:
  assumes "shape cm = shape im"
  shows "assert_consistent_labels_loop label im cm ids (ua, mm, fa, fm) =
           Inr (ua \<or> filter (\<lambda>v. 2 < length (np_unique (flatten (label (eq_mask im v))))) ids \<noteq> [],
                mm \<or> filter (\<lambda>v. 1 < length (np_unique (map (pixel cm) (np_where_eq im v)))) ids \<noteq> [],
                fa @ filter (\<lambda>v. 2 < length (np_unique (flatten (label (eq_mask im v))))) ids,
                fm @ filter (\<lambda>v. 1 < length (np_unique (map (pixel cm) (np_where_eq im v)))) ids)"
proof (induction ids arbitrary: ua mm fa fm)
  case Nil
  show ?case by simp
next
  case (Cons v ids)
  have t: "take_at cm (np_where_eq im v) = Inr (map (pixel cm) (np_where_eq im v))"
    using assms by (rule take_at_where)
  show ?case
    by (simp add: t Cons.IH del: np_unique_Nil)
qed

text \<open>
  C10. On a mask pair (two channels of one shape) \<open>assert_consistent_labels\<close> returns a
  tuple in which each boolean is true exactly when its list of faulty ids is not empty,
  and each list is ascending without a repeated id.
\<close>

theorem assert_consistent_labels_flags_agree:
  assumes "2 \<le> length mask'" and "shape (mask' ! 1) = shape (mask' ! 0)"
  shows "\<exists>ua mm fa fm.
           assert_consistent_labels label mask' = Inr (ua, mm, fa, fm)
           \<and> (ua \<longleftrightarrow> fa \<noteq> []) \<and> (mm \<longleftrightarrow> fm \<noteq> [])
           \<and> sorted fa \<and> distinct fa \<and> sorted fm \<and> distinct fm"
proof -
  define ids where "ids = get_unique_objects (mask' ! 0)"
  define A where "A = (\<lambda>v. 2 < length (np_unique (flatten (label (eq_mask (mask' ! 0) v)))))"
  define M where
    "M = (\<lambda>v. 1 < length (np_unique (map (pixel (mask' ! 1)) (np_where_eq (mask' ! 0) v))))"
  have srt: "sorted ids" and dst: "distinct ids"
    by (simp_all add: ids_def get_unique_objects_sorted get_unique_objects_distinct)
  have "assert_consistent_labels label mask' =
          Inr (filter A ids \<noteq> [], filter M ids \<noteq> [], filter A ids, filter M ids)"
    using assms(1) assert_consistent_labels_loop_char [OF assms(2), of label ids False False "[]" "[]"]
    by (simp add: assert_consistent_labels_def ids_def A_def M_def)
  moreover have "sorted (filter A ids)" "sorted (filter M ids)"
    using srt by (simp_all add: sorted_wrt_filter)
  moreover have "distinct (filter A ids)" "distinct (filter M ids)"
    using dst by simp_all
  ultimately show ?thesis by simp
qed

theorem assert_consistent_labels_flags_agree_witness:
  "\<exists>ua mm fa fm.
     assert_consistent_labels (\<lambda>b. [[0]]) [[[1, 1, 0], [0, 2, 2]], [[5, 5, 0], [0, 7, 3]]]
       = Inr (ua, mm, fa, fm)
     \<and> (ua \<longleftrightarrow> fa \<noteq> []) \<and> (mm \<longleftrightarrow> fm \<noteq> [])
     \<and> sorted fa \<and> distinct fa \<and> sorted fm \<and> distinct fm"
proof -
  have h1: "2 \<le> length [[[1, 1, 0], [0, 2, 2]], [[5, 5, 0], [0, 7, 3 :: int]]]" by simp
  have h2: "shape ([[[1, 1, 0], [0, 2, 2]], [[5, 5, 0], [0, 7, 3]]] ! 1)
              = shape ([[[1, 1, 0], [0, 2, 2]], [[5, 5, 0], [0, 7, 3]]] ! 0)"
    by (simp add: shape_def)
  show ?thesis by (rule assert_consistent_labels_flags_agree [OF h1 h2])
qed

section \<open>The class reconciler\<close>

lemma majority_class_Inr:
  assumes "majority_class vals = Inr m"
  shows "m \<in> set vals \<and> (\<forall>x. count_list vals x \<le> count_list vals m)
           \<and> (\<forall>x. count_list vals x = count_list vals m \<longrightarrow> m \<le> x)"
proof (cases "vals = []")
  case True
  then have "majority_class vals = Inl ValueError"
    by (simp add: majority_class_def np_unique_counts_def np_argmax_def)
  then show ?thesis using assms by simp
next
  case False
  from majority_class_props [OF False] assms show ?thesis by auto
qed

lemma compute_new_labels_mask_step:
  assumes "shape L = shape I" and "shape L = shape I0" and "shape N = shape I"
    and "v \<noteq> 0" and "v \<in> set old \<longrightarrow> v \<in> set (flatten I0)"
  shows "\<exists>x. compute_new_labels_mask_loop dt L I I0 old N (v # ids)
               = compute_new_labels_mask_loop dt L I I0 old (fill N (np_where_eq I v) x) ids
           \<and> (if v \<notin> set old then x = astype dt v
               else if length (np_unique (map (pixel L) (np_where_eq I v))) = 1
               then x = np_unique (map (pixel L) (np_where_eq I v)) ! 0
               else majority_class (map (pixel L) (np_where_eq I0 v)) = Inr x)"
proof -
  have t1: "take_at L (np_where_eq I v) = Inr (map (pixel L) (np_where_eq I v))"
    using assms(1) by (rule take_at_where)
  have t2: "take_at L (np_where_eq I0 v) = Inr (map (pixel L) (np_where_eq I0 v))"
    using assms(2) by (rule take_at_where)
  have p: "put_at N (np_where_eq I v) x = Inr (fill N (np_where_eq I v) x)" for x
    using assms(3) by (rule put_at_where)
  show ?thesis
  proof (cases "v \<in> set old")
    case False
    then show ?thesis using assms(4) p by (simp add: Let_def)
  next
    case True
    show ?thesis
    proof (cases "length (np_unique (map (pixel L) (np_where_eq I v))) = 1")
      case one: True
      then show ?thesis using True assms(4) p t1
        by (simp add: Let_def del: np_unique_Nil)
    next
      case many: False
      have "map (pixel L) (np_where_eq I0 v) \<noteq> []"
        using True assms(5) by (simp add: where_nonempty)
      from majority_class_props [OF this] obtain m where
        m: "majority_class (map (pixel L) (np_where_eq I0 v)) = Inr m" by blast
      show ?thesis using True many assms(4) p t1 t2 m
        by (simp add: Let_def del: np_unique_Nil)
    qed
  qed
qed

lemma compute_new_labels_mask_loop_char:
  assumes "shape L = shape I" and "shape L = shape I0" and "shape N = shape I"
    and "distinct ids" and "set old \<subseteq> set (flatten I0)"
  shows "\<exists>N'. compute_new_labels_mask_loop dt L I I0 old N ids = Inr N' \<and> shape N' = shape I \<and>
           (\<forall>p. in_bounds I p \<longrightarrow>
              (if pixel I p \<in> set ids \<and> pixel I p \<noteq> 0
               then (if pixel I p \<notin> set old then pixel N' p = astype dt (pixel I p)
                     else if length (np_unique (map (pixel L) (np_where_eq I (pixel I p)))) = 1
                     then pixel N' p = np_unique (map (pixel L) (np_where_eq I (pixel I p))) ! 0
                     else majority_class (map (pixel L) (np_where_eq I0 (pixel I p)))
                            = Inr (pixel N' p))
               else pixel N' p = pixel N p))"
  using assms(3,4)
proof (induction ids arbitrary: N)
  case Nil
  then show ?case by simp
next
  case (Cons v ids)
  have dst: "distinct ids" and vn: "v \<notin> set ids" using Cons.prems(2) by simp_all
  show ?case
  proof (cases "v = 0")
    case True
    from Cons.IH [OF Cons.prems(1) dst] obtain N' where
      N': "compute_new_labels_mask_loop dt L I I0 old N ids = Inr N'" "shape N' = shape I"
      and px: "\<And>p. in_bounds I p \<Longrightarrow>
              (if pixel I p \<in> set ids \<and> pixel I p \<noteq> 0
               then (if pixel I p \<notin> set old then pixel N' p = astype dt (pixel I p)
                     else if length (np_unique (map (pixel L) (np_where_eq I (pixel I p)))) = 1
                     then pixel N' p = np_unique (map (pixel L) (np_where_eq I (pixel I p))) ! 0
                     else majority_class (map (pixel L) (np_where_eq I0 (pixel I p)))
                            = Inr (pixel N' p))
               else pixel N' p = pixel N p)"
      by blast
    have step: "compute_new_labels_mask_loop dt L I I0 old N (v # ids)
                  = compute_new_labels_mask_loop dt L I I0 old N ids"
      using True by simp
    have "(pixel I p \<in> set (v # ids) \<and> pixel I p \<noteq> 0)
            = (pixel I p \<in> set ids \<and> pixel I p \<noteq> 0)" for p
      using True by auto
    then show ?thesis using step N' px by (intro exI [of _ N']) (simp del: set_simps)
  next
    case False
    let ?w = "np_where_eq I v"
    have "v \<in> set old \<longrightarrow> v \<in> set (flatten I0)" using assms(5) by blast
    from compute_new_labels_mask_step [OF assms(1,2) Cons.prems(1) False this, of dt ids]
    obtain x where
      step: "compute_new_labels_mask_loop dt L I I0 old N (v # ids)
               = compute_new_labels_mask_loop dt L I I0 old (fill N ?w x) ids"
      and x: "if v \<notin> set old then x = astype dt v
               else if length (np_unique (map (pixel L) ?w)) = 1
               then x = np_unique (map (pixel L) ?w) ! 0
               else majority_class (map (pixel L) (np_where_eq I0 v)) = Inr x"
      by blast
    have sh1: "shape (fill N ?w x) = shape I" using Cons.prems(1) by simp
    from Cons.IH [OF sh1 dst] obtain N' where
      N': "compute_new_labels_mask_loop dt L I I0 old (fill N ?w x) ids = Inr N'" "shape N' = shape I"
      and px: "\<And>p. in_bounds I p \<Longrightarrow>
              (if pixel I p \<in> set ids \<and> pixel I p \<noteq> 0
               then (if pixel I p \<notin> set old then pixel N' p = astype dt (pixel I p)
                     else if length (np_unique (map (pixel L) (np_where_eq I (pixel I p)))) = 1
                     then pixel N' p = np_unique (map (pixel L) (np_where_eq I (pixel I p))) ! 0
                     else majority_class (map (pixel L) (np_where_eq I0 (pixel I p)))
                            = Inr (pixel N' p))
               else pixel N' p = pixel (fill N ?w x) p)"
      by blast
    have "if pixel I p \<in> set (v # ids) \<and> pixel I p \<noteq> 0
               then (if pixel I p \<notin> set old then pixel N' p = astype dt (pixel I p)
                     else if length (np_unique (map (pixel L) (np_where_eq I (pixel I p)))) = 1
                     then pixel N' p = np_unique (map (pixel L) (np_where_eq I (pixel I p))) ! 0
                     else majority_class (map (pixel L) (np_where_eq I0 (pixel I p)))
                            = Inr (pixel N' p))
               else pixel N' p = pixel N p" if p: "in_bounds I p" for p
    proof -
      have pn: "in_bounds N p" using p in_bounds_shape [OF Cons.prems(1), of p] by simp
      show ?thesis
      proof (cases "pixel I p = v")
        case True
        then have "p \<in> set ?w" using p by (simp add: where_set)
        then have "pixel (fill N ?w x) p = x" using pn by (simp add: pixel_fill)
        moreover have "pixel N' p = pixel (fill N ?w x) p" using px [OF p] True vn by simp
        ultimately have "pixel N' p = x" by simp
        then show ?thesis using True False x by simp
      next
        case neq: False
        then have "p \<notin> set ?w" by (simp add: where_set)
        then have "pixel (fill N ?w x) p = pixel N p" using pn by (simp add: pixel_fill)
        then show ?thesis using px [OF p] neq by simp
      qed
    qed
    then show ?thesis using step N' by (intro exI [of _ N']) simp
  qed
qed

lemma np_unique_card: "length (np_unique xs) = card (set xs)"
proof -
  have "card (set (np_unique xs)) = length (np_unique xs)"
    by (rule distinct_card) (rule np_unique_distinct)
  then show ?thesis by simp
qed

lemma np_unique_single:
  assumes "length (np_unique xs) = 1"
  shows "set xs = {np_unique xs ! 0}"
proof -
  from assms obtain a where a: "np_unique xs = [a]"
    by (cases "np_unique xs") auto
  have "set xs = set (np_unique xs)" by simp
  also have "\<dots> = {a}" unfolding a by simp
  finally show ?thesis unfolding a by simp
qed

lemma astype_representable: "representable dt v \<Longrightarrow> astype dt v = v"
  by (cases dt) (simp_all add: astype_def representable_def)

text \<open>
  The placeholder id is cast to the dtype of the class mask: an id that the dtype cannot
  hold wraps around, as 300 does in a \<open>uint8\<close> class mask.
\<close>

lemma compute_new_labels_mask_casts_placeholder:
  "compute_new_labels_mask (UInt 8) [[0, 0]] [[300, 300]] [[0, 0]] [] = Inr [[44, 44]]"
  by code_simp

text \<open>
  C5. The claim names the arguments by their role; in the code's parameter order the call
  is \<open>compute_new_labels_mask labels_mask instance_mask original_instance_mask
  old_instances\<close>, with the prior class mask first, then the edited instance mask, the
  prior instance mask and the known ids; \<open>labels_dtype\<close> is the dtype of the prior class
  mask. The two channels of a mask pair are slices of one array and have one dtype, so
  every value of the edited instance mask is representable in the dtype of the class
  mask. For three masks of one shape, and known ids that all occur in the prior instance
  mask, the call returns a class mask that is 0 at every background pixel of the edited
  instance mask, the instance id at the pixels of an id that is not known, the single
  prior class value of a known id when its edited pixels hold one class value, and
  otherwise the most frequent prior class value at the pixels the id had in the prior
  instance mask. In the example of the claim the three pixels of object 1 receive class 4.
\<close>

theorem compute_new_labels_mask_classes:
  assumes "shape labels_mask = shape instance_mask"
    and "shape labels_mask = shape original_instance_mask"
    and "set old_instances \<subseteq> set (flatten original_instance_mask)"
    and "\<forall>v \<in> set (flatten instance_mask). representable labels_dtype v"
  shows "(\<exists>new_labels_mask.
            compute_new_labels_mask labels_dtype labels_mask instance_mask original_instance_mask
              old_instances = Inr new_labels_mask
            \<and> shape new_labels_mask = shape instance_mask
            \<and> (\<forall>p. in_bounds instance_mask p \<longrightarrow>
                  (pixel instance_mask p = 0 \<longrightarrow> pixel new_labels_mask p = 0)
                \<and> (pixel instance_mask p \<noteq> 0 \<and> pixel instance_mask p \<notin> set old_instances
                     \<longrightarrow> pixel new_labels_mask p = pixel instance_mask p)
                \<and> (pixel instance_mask p \<noteq> 0 \<and> pixel instance_mask p \<in> set old_instances
                     \<and> card (set (map (pixel labels_mask)
                                    (np_where_eq instance_mask (pixel instance_mask p)))) = 1
                     \<longrightarrow> set (map (pixel labels_mask)
                                (np_where_eq instance_mask (pixel instance_mask p)))
                           = {pixel new_labels_mask p})
                \<and> (pixel instance_mask p \<noteq> 0 \<and> pixel instance_mask p \<in> set old_instances
                     \<and> card (set (map (pixel labels_mask)
                                    (np_where_eq instance_mask (pixel instance_mask p)))) \<noteq> 1
                     \<longrightarrow> majority_class (map (pixel labels_mask)
                             (np_where_eq original_instance_mask (pixel instance_mask p)))
                           = Inr (pixel new_labels_mask p)
                         \<and> pixel new_labels_mask p
                             \<in> set (map (pixel labels_mask)
                                  (np_where_eq original_instance_mask (pixel instance_mask p)))
                         \<and> (\<forall>x. count_list (map (pixel labels_mask)
                                    (np_where_eq original_instance_mask (pixel instance_mask p))) x
                                \<le> count_list (map (pixel labels_mask)
                                    (np_where_eq original_instance_mask (pixel instance_mask p)))
                                    (pixel new_labels_mask p)))))
         \<and> compute_new_labels_mask labels_dtype [[4, 4], [0, 0]] [[1, 1], [1, 0]] [[1, 1], [0, 0]] [1]
             = Inr [[4, 4], [4, 0]]"
proof
  define ids where "ids = np_unique (flatten instance_mask)"
  have dst: "distinct ids" unfolding ids_def by (rule np_unique_distinct)
  have sh0: "shape (zeros_like labels_mask) = shape instance_mask" using assms(1) by simp
  from compute_new_labels_mask_loop_char [OF assms(1,2) sh0 dst assms(3)]
  obtain N' where
    r: "compute_new_labels_mask_loop labels_dtype labels_mask instance_mask original_instance_mask
          old_instances (zeros_like labels_mask) ids = Inr N'"
    and sh: "shape N' = shape instance_mask"
    and px: "\<And>p. in_bounds instance_mask p \<Longrightarrow>
              (if pixel instance_mask p \<in> set ids \<and> pixel instance_mask p \<noteq> 0
               then (if pixel instance_mask p \<notin> set old_instances
                     then pixel N' p = astype labels_dtype (pixel instance_mask p)
                     else if length (np_unique (map (pixel labels_mask)
                                 (np_where_eq instance_mask (pixel instance_mask p)))) = 1
                     then pixel N' p = np_unique (map (pixel labels_mask)
                                 (np_where_eq instance_mask (pixel instance_mask p))) ! 0
                     else majority_class (map (pixel labels_mask)
                                 (np_where_eq original_instance_mask (pixel instance_mask p)))
                            = Inr (pixel N' p))
               else pixel N' p = pixel (zeros_like labels_mask) p)"
    by blast
  have res: "compute_new_labels_mask labels_dtype labels_mask instance_mask original_instance_mask
               old_instances = Inr N'"
    using r by (simp add: compute_new_labels_mask_def ids_def)
  have body: "(pixel instance_mask p = 0 \<longrightarrow> pixel N' p = 0)
                \<and> (pixel instance_mask p \<noteq> 0 \<and> pixel instance_mask p \<notin> set old_instances
                     \<longrightarrow> pixel N' p = pixel instance_mask p)
                \<and> (pixel instance_mask p \<noteq> 0 \<and> pixel instance_mask p \<in> set old_instances
                     \<and> card (set (map (pixel labels_mask)
                                    (np_where_eq instance_mask (pixel instance_mask p)))) = 1
                     \<longrightarrow> set (map (pixel labels_mask)
                                (np_where_eq instance_mask (pixel instance_mask p)))
                           = {pixel N' p})
                \<and> (pixel instance_mask p \<noteq> 0 \<and> pixel instance_mask p \<in> set old_instances
                     \<and> card (set (map (pixel labels_mask)
                                    (np_where_eq instance_mask (pixel instance_mask p)))) \<noteq> 1
                     \<longrightarrow> majority_class (map (pixel labels_mask)
                             (np_where_eq original_instance_mask (pixel instance_mask p)))
                           = Inr (pixel N' p)
                         \<and> pixel N' p
                             \<in> set (map (pixel labels_mask)
                                  (np_where_eq original_instance_mask (pixel instance_mask p)))
                         \<and> (\<forall>x. count_list (map (pixel labels_mask)
                                    (np_where_eq original_instance_mask (pixel instance_mask p))) x
                                \<le> count_list (map (pixel labels_mask)
                                    (np_where_eq original_instance_mask (pixel instance_mask p)))
                                    (pixel N' p)))"
    if p: "in_bounds instance_mask p" for p
  proof -
    define v where "v = pixel instance_mask p"
    define vals where "vals = map (pixel labels_mask) (np_where_eq instance_mask v)"
    define ovals where "ovals = map (pixel labels_mask) (np_where_eq original_instance_mask v)"
    have pl: "in_bounds labels_mask p" using p in_bounds_shape [OF assms(1), of p] by simp
    have "\<exists>q. in_bounds instance_mask q \<and> pixel instance_mask q = v"
      using p v_def by blast
    then have vin: "v \<in> set (flatten instance_mask)" by (simp only: flatten_set)
    then have mem: "v \<in> set ids" by (simp add: ids_def)
    note P = px [OF p, folded v_def, folded vals_def ovals_def]
    have c1: "v = 0 \<longrightarrow> pixel N' p = 0"
      using P pl by (simp add: pixel_zeros_like)
    have "representable labels_dtype v" using assms(4) vin by blast
    then have cast: "astype labels_dtype v = v" by (rule astype_representable)
    have c2: "v \<noteq> 0 \<and> v \<notin> set old_instances \<longrightarrow> pixel N' p = v"
      using P mem cast by simp
    have c3: "v \<noteq> 0 \<and> v \<in> set old_instances \<and> card (set vals) = 1
                \<longrightarrow> set vals = {pixel N' p}"
    proof (intro impI)
      assume a: "v \<noteq> 0 \<and> v \<in> set old_instances \<and> card (set vals) = 1"
      then have l: "length (np_unique vals) = 1" by (simp add: np_unique_card)
      then have "pixel N' p = np_unique vals ! 0" using P mem a by simp
      then show "set vals = {pixel N' p}" using np_unique_single [OF l] by simp
    qed
    have c4: "v \<noteq> 0 \<and> v \<in> set old_instances \<and> card (set vals) \<noteq> 1
                \<longrightarrow> majority_class ovals = Inr (pixel N' p) \<and> pixel N' p \<in> set ovals
                    \<and> (\<forall>x. count_list ovals x \<le> count_list ovals (pixel N' p))"
    proof (intro impI)
      assume a: "v \<noteq> 0 \<and> v \<in> set old_instances \<and> card (set vals) \<noteq> 1"
      then have l: "length (np_unique vals) \<noteq> 1" by (simp add: np_unique_card)
      then have m: "majority_class ovals = Inr (pixel N' p)" using P mem a by simp
      from majority_class_Inr [OF m] m
      show "majority_class ovals = Inr (pixel N' p) \<and> pixel N' p \<in> set ovals
              \<and> (\<forall>x. count_list ovals x \<le> count_list ovals (pixel N' p))"
        by blast
    qed
    show ?thesis using c1 c2 c3 c4 unfolding vals_def ovals_def v_def by blast
  qed
  show "\<exists>new_labels_mask.
            compute_new_labels_mask labels_dtype labels_mask instance_mask original_instance_mask
              old_instances = Inr new_labels_mask
            \<and> shape new_labels_mask = shape instance_mask
            \<and> (\<forall>p. in_bounds instance_mask p \<longrightarrow>
                  (pixel instance_mask p = 0 \<longrightarrow> pixel new_labels_mask p = 0)
                \<and> (pixel instance_mask p \<noteq> 0 \<and> pixel instance_mask p \<notin> set old_instances
                     \<longrightarrow> pixel new_labels_mask p = pixel instance_mask p)
                \<and> (pixel instance_mask p \<noteq> 0 \<and> pixel instance_mask p \<in> set old_instances
                     \<and> card (set (map (pixel labels_mask)
                                    (np_where_eq instance_mask (pixel instance_mask p)))) = 1
                     \<longrightarrow> set (map (pixel labels_mask)
                                (np_where_eq instance_mask (pixel instance_mask p)))
                           = {pixel new_labels_mask p})
                \<and> (pixel instance_mask p \<noteq> 0 \<and> pixel instance_mask p \<in> set old_instances
                     \<and> card (set (map (pixel labels_mask)
                                    (np_where_eq instance_mask (pixel instance_mask p)))) \<noteq> 1
                     \<longrightarrow> majority_class (map (pixel labels_mask)
                             (np_where_eq original_instance_mask (pixel instance_mask p)))
                           = Inr (pixel new_labels_mask p)
                         \<and> pixel new_labels_mask p
                             \<in> set (map (pixel labels_mask)
                                  (np_where_eq original_instance_mask (pixel instance_mask p)))
                         \<and> (\<forall>x. count_list (map (pixel labels_mask)
                                    (np_where_eq original_instance_mask (pixel instance_mask p))) x
                                \<le> count_list (map (pixel labels_mask)
                                    (np_where_eq original_instance_mask (pixel instance_mask p)))
                                    (pixel new_labels_mask p))))"
    by (intro exI [of _ N'] conjI allI impI res sh) (use body in blast)+
next
  show "compute_new_labels_mask labels_dtype [[4, 4], [0, 0]] [[1, 1], [1, 0]] [[1, 1], [0, 0]] [1]
          = Inr [[4, 4], [4, 0]]"
    by code_simp
qed

theorem compute_new_labels_mask_classes_witness:
  "\<exists>new_labels_mask.
     compute_new_labels_mask (UInt 8) [[4, 4, 0], [0, 0, 0]] [[1, 1, 7], [1, 0, 7]]
       [[1, 1, 0], [0, 0, 0]] [1] = Inr new_labels_mask
     \<and> pixel new_labels_mask (1, 0) = 4 \<and> pixel new_labels_mask (1, 1) = 0
     \<and> pixel new_labels_mask (0, 2) = 7"
proof -
  let ?L = "[[4, 4, 0], [0, 0, 0]] :: grid"
  let ?I = "[[1, 1, 7], [1, 0, 7]] :: grid"
  let ?J = "[[1, 1, 0], [0, 0, 0]] :: grid"
  have h1: "shape ?L = shape ?I" by (simp add: shape_def)
  have h2: "shape ?L = shape ?J" by (simp add: shape_def)
  have h3: "set [1] \<subseteq> set (flatten ?J)" by (simp add: flatten_def)
  have h4: "\<forall>v \<in> set (flatten ?I). representable (UInt 8) v"
    by (simp add: flatten_def representable_def)
  from compute_new_labels_mask_classes [OF h1 h2 h3 h4] obtain N where
    r: "compute_new_labels_mask (UInt 8) ?L ?I ?J [1] = Inr N"
    and bg: "\<And>p. in_bounds ?I p \<Longrightarrow> pixel ?I p = 0 \<Longrightarrow> pixel N p = 0"
    and new: "\<And>p. in_bounds ?I p \<Longrightarrow> pixel ?I p \<noteq> 0 \<and> pixel ?I p \<notin> set [1]
                 \<Longrightarrow> pixel N p = pixel ?I p"
    and grow: "\<And>p. in_bounds ?I p \<Longrightarrow>
                 pixel ?I p \<noteq> 0 \<and> pixel ?I p \<in> set [1]
                   \<and> card (set (map (pixel ?L) (np_where_eq ?I (pixel ?I p)))) \<noteq> 1
                 \<Longrightarrow> majority_class (map (pixel ?L) (np_where_eq ?J (pixel ?I p)))
                       = Inr (pixel N p)"
    by blast
  have w: "np_where_eq ?I 1 = [(0, 0), (0, 1), (1, 0)]"
    by (simp add: np_where_eq_def upt_conv_Cons)
  have w0: "np_where_eq ?J 1 = [(0, 0), (0, 1)]"
    by (simp add: np_where_eq_def upt_conv_Cons)
  have mj: "majority_class [4, 4] = Inr 4" by code_simp
  have b10: "in_bounds ?I (1, 0)" and b11: "in_bounds ?I (1, 1)" and b02: "in_bounds ?I (0, 2)"
    by (simp_all add: in_bounds_def)
  have "pixel N (1, 1) = 0" using bg [OF b11] by (simp add: pixel_def)
  moreover have "pixel N (0, 2) = 7" using new [OF b02] by (simp add: pixel_def)
  moreover have "majority_class (map (pixel ?L) (np_where_eq ?J (pixel ?I (1, 0))))
                   = Inr (pixel N (1, 0))"
    by (rule grow [OF b10]) (simp add: pixel_def w)
  then have "pixel N (1, 0) = 4" by (simp add: pixel_def w0 mj)
  ultimately show ?thesis using r by blast
qed

section \<open>The majority vote\<close>

lemma add_contour_majority:
  assumes "shape C = shape I"
  shows "\<exists>C'. add_contour C I = Inr C' \<and>
           (\<forall>p. in_bounds I p \<and> pixel I p \<in> set (get_unique_objects I) \<longrightarrow>
              majority_class (map (pixel C) (np_where_eq I (pixel I p))) = Inr (pixel C' p))"
proof -
  from add_contour_char [OF assms] obtain C' where
    r: "add_contour C I = Inr C'"
    and px: "\<And>p. in_bounds I p \<Longrightarrow>
              (if pixel I p \<in> set (get_unique_objects I)
               then majority_class (map (pixel C) (np_where_eq I (pixel I p))) = Inr (pixel C' p)
               else pixel C' p = pixel C p)"
    by blast
  have "majority_class (map (pixel C) (np_where_eq I (pixel I p))) = Inr (pixel C' p)"
    if "in_bounds I p \<and> pixel I p \<in> set (get_unique_objects I)" for p
    using px [of p] that by simp
  then show ?thesis using r by blast
qed

lemma compute_new_labels_mask_majority:
  assumes "shape L = shape I" and "shape L = shape I0" and "set old \<subseteq> set (flatten I0)"
  shows "\<exists>N. compute_new_labels_mask dt L I I0 old = Inr N \<and>
           (\<forall>p. in_bounds I p \<and> pixel I p \<noteq> 0 \<and> pixel I p \<in> set old
                 \<and> length (np_unique (map (pixel L) (np_where_eq I (pixel I p)))) \<noteq> 1 \<longrightarrow>
              majority_class (map (pixel L) (np_where_eq I0 (pixel I p))) = Inr (pixel N p))"
proof -
  define ids where "ids = np_unique (flatten I)"
  have dst: "distinct ids" unfolding ids_def by (rule np_unique_distinct)
  have sh0: "shape (zeros_like L) = shape I" using assms(1) by simp
  from compute_new_labels_mask_loop_char [OF assms(1,2) sh0 dst assms(3)]
  obtain N where
    r: "compute_new_labels_mask_loop dt L I I0 old (zeros_like L) ids = Inr N"
    and px: "\<And>p. in_bounds I p \<Longrightarrow>
              (if pixel I p \<in> set ids \<and> pixel I p \<noteq> 0
               then (if pixel I p \<notin> set old then pixel N p = astype dt (pixel I p)
                     else if length (np_unique (map (pixel L) (np_where_eq I (pixel I p)))) = 1
                     then pixel N p = np_unique (map (pixel L) (np_where_eq I (pixel I p))) ! 0
                     else majority_class (map (pixel L) (np_where_eq I0 (pixel I p)))
                            = Inr (pixel N p))
               else pixel N p = pixel (zeros_like L) p)"
    by blast
  have res: "compute_new_labels_mask dt L I I0 old = Inr N"
    using r by (simp add: compute_new_labels_mask_def ids_def)
  have "majority_class (map (pixel L) (np_where_eq I0 (pixel I p))) = Inr (pixel N p)"
    if a: "in_bounds I p \<and> pixel I p \<noteq> 0 \<and> pixel I p \<in> set old
             \<and> length (np_unique (map (pixel L) (np_where_eq I (pixel I p)))) \<noteq> 1" for p
  proof -
    have "\<exists>q. in_bounds I q \<and> pixel I q = pixel I p" using a by blast
    then have "pixel I p \<in> set (flatten I)" by (simp only: flatten_set)
    then have "pixel I p \<in> set ids" by (simp add: ids_def)
    then show ?thesis using px [of p] a by simp
  qed
  then show ?thesis using res by blast
qed

text \<open>
  C6. The majority vote is \<open>class_vals[np.argmax(counts)]\<close> over the ascending distinct
  class values: it returns a value of maximal count, and every value with the same count
  is at least as large, so of the values tied for the maximum the lowest is chosen. This
  is the value \<open>add_contour\<close> writes to the pixels of each object it visits, and the
  value \<open>compute_new_labels_mask\<close> writes in its last branch.
\<close>

theorem majority_vote_lowest_of_tied:
  "(vals \<noteq> [] \<longrightarrow>
      (\<exists>m. majority_class vals = Inr m \<and> m \<in> set vals
         \<and> (\<forall>x. count_list vals x \<le> count_list vals m)
         \<and> (\<forall>x. count_list vals x = count_list vals m \<longrightarrow> m \<le> x)))
   \<and> (shape labels_mask = shape instance_mask \<longrightarrow>
      (\<exists>C'. add_contour labels_mask instance_mask = Inr C' \<and>
         (\<forall>p. in_bounds instance_mask p
               \<and> pixel instance_mask p \<in> set (get_unique_objects instance_mask) \<longrightarrow>
            pixel C' p \<in> set (map (pixel labels_mask)
                                (np_where_eq instance_mask (pixel instance_mask p)))
            \<and> (\<forall>x. count_list (map (pixel labels_mask)
                       (np_where_eq instance_mask (pixel instance_mask p))) x
                   \<le> count_list (map (pixel labels_mask)
                       (np_where_eq instance_mask (pixel instance_mask p))) (pixel C' p))
            \<and> (\<forall>x. count_list (map (pixel labels_mask)
                       (np_where_eq instance_mask (pixel instance_mask p))) x
                   = count_list (map (pixel labels_mask)
                       (np_where_eq instance_mask (pixel instance_mask p))) (pixel C' p)
                  \<longrightarrow> pixel C' p \<le> x))))
   \<and> (shape prior_class_mask = shape edited_instance_mask
       \<and> shape prior_class_mask = shape prior_instance_mask
       \<and> set known_ids \<subseteq> set (flatten prior_instance_mask) \<longrightarrow>
      (\<exists>N. compute_new_labels_mask class_dtype prior_class_mask edited_instance_mask
               prior_instance_mask known_ids = Inr N \<and>
         (\<forall>p. in_bounds edited_instance_mask p \<and> pixel edited_instance_mask p \<noteq> 0
               \<and> pixel edited_instance_mask p \<in> set known_ids
               \<and> length (np_unique (map (pixel prior_class_mask)
                    (np_where_eq edited_instance_mask (pixel edited_instance_mask p)))) \<noteq> 1
               \<longrightarrow>
            pixel N p \<in> set (map (pixel prior_class_mask)
                               (np_where_eq prior_instance_mask (pixel edited_instance_mask p)))
            \<and> (\<forall>x. count_list (map (pixel prior_class_mask)
                       (np_where_eq prior_instance_mask (pixel edited_instance_mask p))) x
                   \<le> count_list (map (pixel prior_class_mask)
                       (np_where_eq prior_instance_mask (pixel edited_instance_mask p)))
                       (pixel N p))
            \<and> (\<forall>x. count_list (map (pixel prior_class_mask)
                       (np_where_eq prior_instance_mask (pixel edited_instance_mask p))) x
                   = count_list (map (pixel prior_class_mask)
                       (np_where_eq prior_instance_mask (pixel edited_instance_mask p)))
                       (pixel N p)
                  \<longrightarrow> pixel N p \<le> x))))"
proof (intro conjI impI)
  assume "vals \<noteq> []"
  then show "\<exists>m. majority_class vals = Inr m \<and> m \<in> set vals
         \<and> (\<forall>x. count_list vals x \<le> count_list vals m)
         \<and> (\<forall>x. count_list vals x = count_list vals m \<longrightarrow> m \<le> x)"
    by (rule majority_class_props)
next
  assume "shape labels_mask = shape instance_mask"
  from add_contour_majority [OF this] obtain C' where
    r: "add_contour labels_mask instance_mask = Inr C'"
    and m: "\<And>p. in_bounds instance_mask p
               \<and> pixel instance_mask p \<in> set (get_unique_objects instance_mask) \<Longrightarrow>
              majority_class (map (pixel labels_mask)
                 (np_where_eq instance_mask (pixel instance_mask p))) = Inr (pixel C' p)"
    by blast
  show "\<exists>C'. add_contour labels_mask instance_mask = Inr C' \<and>
         (\<forall>p. in_bounds instance_mask p
               \<and> pixel instance_mask p \<in> set (get_unique_objects instance_mask) \<longrightarrow>
            pixel C' p \<in> set (map (pixel labels_mask)
                                (np_where_eq instance_mask (pixel instance_mask p)))
            \<and> (\<forall>x. count_list (map (pixel labels_mask)
                       (np_where_eq instance_mask (pixel instance_mask p))) x
                   \<le> count_list (map (pixel labels_mask)
                       (np_where_eq instance_mask (pixel instance_mask p))) (pixel C' p))
            \<and> (\<forall>x. count_list (map (pixel labels_mask)
                       (np_where_eq instance_mask (pixel instance_mask p))) x
                   = count_list (map (pixel labels_mask)
                       (np_where_eq instance_mask (pixel instance_mask p))) (pixel C' p)
                  \<longrightarrow> pixel C' p \<le> x))"
  proof (intro exI [of _ C'] conjI [OF r] allI impI)
    fix p
    assume a: "in_bounds instance_mask p
               \<and> pixel instance_mask p \<in> set (get_unique_objects instance_mask)"
    show "pixel C' p \<in> set (map (pixel labels_mask)
                                (np_where_eq instance_mask (pixel instance_mask p)))
            \<and> (\<forall>x. count_list (map (pixel labels_mask)
                       (np_where_eq instance_mask (pixel instance_mask p))) x
                   \<le> count_list (map (pixel labels_mask)
                       (np_where_eq instance_mask (pixel instance_mask p))) (pixel C' p))
            \<and> (\<forall>x. count_list (map (pixel labels_mask)
                       (np_where_eq instance_mask (pixel instance_mask p))) x
                   = count_list (map (pixel labels_mask)
                       (np_where_eq instance_mask (pixel instance_mask p))) (pixel C' p)
                  \<longrightarrow> pixel C' p \<le> x)"
      by (rule majority_class_Inr) (rule m [OF a])
  qed
next
  assume a: "shape prior_class_mask = shape edited_instance_mask
       \<and> shape prior_class_mask = shape prior_instance_mask
       \<and> set known_ids \<subseteq> set (flatten prior_instance_mask)"
  then have a1: "shape prior_class_mask = shape edited_instance_mask"
    and a2: "shape prior_class_mask = shape prior_instance_mask"
    and a3: "set known_ids \<subseteq> set (flatten prior_instance_mask)"
    by blast+
  from compute_new_labels_mask_majority [OF a1 a2 a3] obtain N where
    r: "compute_new_labels_mask class_dtype prior_class_mask edited_instance_mask
               prior_instance_mask known_ids = Inr N"
    and m: "\<And>p. in_bounds edited_instance_mask p \<and> pixel edited_instance_mask p \<noteq> 0
               \<and> pixel edited_instance_mask p \<in> set known_ids
               \<and> length (np_unique (map (pixel prior_class_mask)
                    (np_where_eq edited_instance_mask (pixel edited_instance_mask p)))) \<noteq> 1
             \<Longrightarrow> majority_class (map (pixel prior_class_mask)
                    (np_where_eq prior_instance_mask (pixel edited_instance_mask p)))
                   = Inr (pixel N p)"
    by blast
  show "\<exists>N. compute_new_labels_mask class_dtype prior_class_mask edited_instance_mask
               prior_instance_mask known_ids = Inr N \<and>
         (\<forall>p. in_bounds edited_instance_mask p \<and> pixel edited_instance_mask p \<noteq> 0
               \<and> pixel edited_instance_mask p \<in> set known_ids
               \<and> length (np_unique (map (pixel prior_class_mask)
                    (np_where_eq edited_instance_mask (pixel edited_instance_mask p)))) \<noteq> 1
               \<longrightarrow>
            pixel N p \<in> set (map (pixel prior_class_mask)
                               (np_where_eq prior_instance_mask (pixel edited_instance_mask p)))
            \<and> (\<forall>x. count_list (map (pixel prior_class_mask)
                       (np_where_eq prior_instance_mask (pixel edited_instance_mask p))) x
                   \<le> count_list (map (pixel prior_class_mask)
                       (np_where_eq prior_instance_mask (pixel edited_instance_mask p)))
                       (pixel N p))
            \<and> (\<forall>x. count_list (map (pixel prior_class_mask)
                       (np_where_eq prior_instance_mask (pixel edited_instance_mask p))) x
                   = count_list (map (pixel prior_class_mask)
                       (np_where_eq prior_instance_mask (pixel edited_instance_mask p)))
                       (pixel N p)
                  \<longrightarrow> pixel N p \<le> x))"
  proof (intro exI [of _ N] conjI [OF r] allI impI)
    fix p
    assume b: "in_bounds edited_instance_mask p \<and> pixel edited_instance_mask p \<noteq> 0
               \<and> pixel edited_instance_mask p \<in> set known_ids
               \<and> length (np_unique (map (pixel prior_class_mask)
                    (np_where_eq edited_instance_mask (pixel edited_instance_mask p)))) \<noteq> 1"
    show "pixel N p \<in> set (map (pixel prior_class_mask)
                               (np_where_eq prior_instance_mask (pixel edited_instance_mask p)))
            \<and> (\<forall>x. count_list (map (pixel prior_class_mask)
                       (np_where_eq prior_instance_mask (pixel edited_instance_mask p))) x
                   \<le> count_list (map (pixel prior_class_mask)
                       (np_where_eq prior_instance_mask (pixel edited_instance_mask p)))
                       (pixel N p))
            \<and> (\<forall>x. count_list (map (pixel prior_class_mask)
                       (np_where_eq prior_instance_mask (pixel edited_instance_mask p))) x
                   = count_list (map (pixel prior_class_mask)
                       (np_where_eq prior_instance_mask (pixel edited_instance_mask p)))
                       (pixel N p)
                  \<longrightarrow> pixel N p \<le> x)"
      by (rule majority_class_Inr) (rule m [OF b])
  qed
qed

theorem majority_vote_lowest_of_tied_witness:
  "majority_class [9, 3, 3, 9] = Inr 3
   \<and> (\<exists>C'. add_contour [[9, 3, 3, 9, 7]] [[1, 1, 1, 1, 0]] = Inr C' \<and> pixel C' (0, 0) = 3)
   \<and> (\<exists>N. compute_new_labels_mask (UInt 8) [[9, 3, 3, 9, 0]] [[1, 1, 1, 1, 1]] [[1, 1, 1, 1, 0]] [1]
              = Inr N \<and> pixel N (0, 4) = 3)"
proof -
  let ?vals = "[9, 3, 3, 9] :: int list"
  let ?C = "[[9, 3, 3, 9, 7]] :: grid"
  let ?L = "[[9, 3, 3, 9, 0]] :: grid"
  let ?E = "[[1, 1, 1, 1, 1]] :: grid"
  let ?P = "[[1, 1, 1, 1, 0]] :: grid"
  note T = majority_vote_lowest_of_tied [where vals = ?vals and labels_mask = ?C
      and instance_mask = ?P and prior_class_mask = ?L and edited_instance_mask = ?E
      and prior_instance_mask = ?P and known_ids = "[1]" and class_dtype = "UInt 8"]
  have lowest: "c = 3"
    if "c \<in> set ?vals" and "\<forall>x. count_list ?vals x = count_list ?vals c \<longrightarrow> c \<le> x" for c
  proof -
    have "c = 9 \<or> c = 3" using that(1) by auto
    moreover have "count_list ?vals 3 = count_list ?vals c \<longrightarrow> c \<le> 3" using that(2) by blast
    ultimately show ?thesis by auto
  qed
  have wP: "np_where_eq ?P 1 = [(0, 0), (0, 1), (0, 2), (0, 3)]"
    by (simp add: np_where_eq_def upt_conv_Cons)
  have wE: "np_where_eq ?E 1 = [(0, 0), (0, 1), (0, 2), (0, 3), (0, 4)]"
    by (simp add: np_where_eq_def upt_conv_Cons)
  have vC: "map (pixel ?C) (np_where_eq ?P 1) = ?vals" by (simp add: wP pixel_def)
  have vL: "map (pixel ?L) (np_where_eq ?P 1) = ?vals" by (simp add: wP pixel_def)
  have ids: "get_unique_objects ?P = [1]"
    by (simp add: get_unique_objects_def np_unique_def flatten_def)
  have many: "length (np_unique (map (pixel ?L) (np_where_eq ?E 1))) \<noteq> 1"
    by (simp add: wE pixel_def np_unique_def)
  have part1: "majority_class ?vals = Inr 3"
  proof -
    have "?vals \<noteq> []" by simp
    with T obtain m where m: "majority_class ?vals = Inr m" "m \<in> set ?vals"
      "\<forall>x. count_list ?vals x = count_list ?vals m \<longrightarrow> m \<le> x"
      by blast
    then have "m = 3" using lowest by blast
    then show ?thesis using m(1) by simp
  qed
  have part2: "\<exists>C'. add_contour ?C ?P = Inr C' \<and> pixel C' (0, 0) = 3"
  proof -
    have "shape ?C = shape ?P" by (simp add: shape_def)
    with T obtain C' where r: "add_contour ?C ?P = Inr C'"
      and tie: "\<And>p. in_bounds ?P p \<and> pixel ?P p \<in> set (get_unique_objects ?P) \<Longrightarrow>
                 pixel C' p \<in> set (map (pixel ?C) (np_where_eq ?P (pixel ?P p)))
                 \<and> (\<forall>x. count_list (map (pixel ?C) (np_where_eq ?P (pixel ?P p))) x
                        = count_list (map (pixel ?C) (np_where_eq ?P (pixel ?P p))) (pixel C' p)
                       \<longrightarrow> pixel C' p \<le> x)"
      by blast
    have px: "pixel ?P (0, 0) = 1" by (simp add: pixel_def)
    have "in_bounds ?P (0, 0) \<and> pixel ?P (0, 0) \<in> set (get_unique_objects ?P)"
      by (simp add: in_bounds_def ids px)
    from tie [OF this] have "pixel C' (0, 0) \<in> set ?vals
        \<and> (\<forall>x. count_list ?vals x = count_list ?vals (pixel C' (0, 0)) \<longrightarrow> pixel C' (0, 0) \<le> x)"
      unfolding px vC .
    then have "pixel C' (0, 0) = 3" using lowest by blast
    then show ?thesis using r by blast
  qed
  have part3: "\<exists>N. compute_new_labels_mask (UInt 8) ?L ?E ?P [1] = Inr N \<and> pixel N (0, 4) = 3"
  proof -
    have "shape ?L = shape ?E \<and> shape ?L = shape ?P \<and> set [1] \<subseteq> set (flatten ?P)"
      by (simp add: shape_def flatten_def)
    with T obtain N where r: "compute_new_labels_mask (UInt 8) ?L ?E ?P [1] = Inr N"
      and tie: "\<And>p. in_bounds ?E p \<and> pixel ?E p \<noteq> 0 \<and> pixel ?E p \<in> set [1]
                 \<and> length (np_unique (map (pixel ?L) (np_where_eq ?E (pixel ?E p)))) \<noteq> 1 \<Longrightarrow>
                 pixel N p \<in> set (map (pixel ?L) (np_where_eq ?P (pixel ?E p)))
                 \<and> (\<forall>x. count_list (map (pixel ?L) (np_where_eq ?P (pixel ?E p))) x
                        = count_list (map (pixel ?L) (np_where_eq ?P (pixel ?E p))) (pixel N p)
                       \<longrightarrow> pixel N p \<le> x)"
      by blast
    have px: "pixel ?E (0, 4) = 1" by (simp add: pixel_def)
    have "in_bounds ?E (0, 4) \<and> pixel ?E (0, 4) \<noteq> 0 \<and> pixel ?E (0, 4) \<in> set [1]
            \<and> length (np_unique (map (pixel ?L) (np_where_eq ?E (pixel ?E (0, 4))))) \<noteq> 1"
      unfolding px using many by (simp add: in_bounds_def)
    from tie [OF this] have "pixel N (0, 4) \<in> set ?vals
        \<and> (\<forall>x. count_list ?vals x = count_list ?vals (pixel N (0, 4)) \<longrightarrow> pixel N (0, 4) \<le> x)"
      unfolding px vL .
    then have "pixel N (0, 4) = 3" using lowest by blast
    then show ?thesis using r by blast
  qed
  show ?thesis using part1 part2 part3 by blast
qed

section \<open>The contour tracer\<close>

lemma shape2_shape: "shape g = shape h \<Longrightarrow> shape2 g = shape2 h"
proof -
  assume a: "shape g = shape h"
  have "shape2 k = (length (shape k), case shape k of [] \<Rightarrow> 0 | n # _ \<Rightarrow> n)" for k
    by (cases k) (simp_all add: shape2_def shape_def)
  then show ?thesis using a by simp
qed

lemma list_all_in_bounds_shape:
  assumes "shape g = shape h"
  shows "list_all (in_bounds g) ps = list_all (in_bounds h) ps"
proof -
  have "in_bounds g p = in_bounds h p" for p using assms by (rule in_bounds_shape)
  then show ?thesis by (simp add: list_all_iff)
qed

lemma draw_contour_traced:
  assumes "shape cm = shape I"
  shows "(traced sk lvl I v = None \<longrightarrow> isl (draw_contour sk lvl I cm v))
         \<and> (\<forall>ps. traced sk lvl I v = Some ps \<longrightarrow> draw_contour sk lvl I cm v = Inr (fill cm ps v))"
proof -
  have "shape cm = shape (zeros_like I)" using assms by simp
  then have s2: "shape2 cm = shape2 (zeros_like I)" by (rule shape2_shape)
  have per: "perimeter sk lvl I cm v = perimeter sk lvl I (zeros_like I) v"
    unfolding perimeter_def s2 by (rule refl)
  have lb: "list_all (in_bounds cm) ps = list_all (in_bounds I) ps" for ps
    using assms by (rule list_all_in_bounds_shape)
  show ?thesis
    by (cases "perimeter sk lvl I (zeros_like I) v")
       (simp_all add: traced_def draw_contour_def per put_at_def lb)
qed

lemma get_contours_loop_step:
  assumes "shape cm = shape I"
  shows "get_contours_loop sk lvl I (cm, out) (v # ids)
           = (case traced sk lvl I v of
                None \<Rightarrow> get_contours_loop sk lvl I (cm, out @ [warning v]) ids
              | Some ps \<Rightarrow> get_contours_loop sk lvl I (fill cm ps v, out) ids)"
proof (cases "traced sk lvl I v")
  case None
  then obtain e where "draw_contour sk lvl I cm v = Inl e"
    using draw_contour_traced [OF assms, of sk lvl v]
    by (cases "draw_contour sk lvl I cm v") auto
  then show ?thesis using None by simp
next
  case (Some ps)
  then have "draw_contour sk lvl I cm v = Inr (fill cm ps v)"
    using draw_contour_traced [OF assms, of sk lvl v] by simp
  then show ?thesis using Some by simp
qed

lemma get_contours_loop_printed:
  assumes "shape cm = shape I"
  shows "snd (get_contours_loop sk lvl I (cm, out) ids)
           = out @ map warning (filter (\<lambda>v. traced sk lvl I v = None) ids)"
  using assms
proof (induction ids arbitrary: cm out)
  case Nil
  show ?case by simp
next
  case (Cons v ids)
  show ?case
  proof (cases "traced sk lvl I v")
    case None
    have "snd (get_contours_loop sk lvl I (cm, out) (v # ids))
            = snd (get_contours_loop sk lvl I (cm, out @ [warning v]) ids)"
      by (simp only: get_contours_loop_step [OF Cons.prems] None option.case)
    also have "\<dots> = (out @ [warning v]) @ map warning (filter (\<lambda>v. traced sk lvl I v = None) ids)"
      by (rule Cons.IH [OF Cons.prems])
    finally show ?thesis using None by simp
  next
    case (Some ps)
    have sh: "shape (fill cm ps v) = shape I" using Cons.prems by simp
    have "snd (get_contours_loop sk lvl I (cm, out) (v # ids))
            = snd (get_contours_loop sk lvl I (fill cm ps v, out) ids)"
      by (simp only: get_contours_loop_step [OF Cons.prems] Some option.case)
    also have "\<dots> = out @ map warning (filter (\<lambda>v. traced sk lvl I v = None) ids)"
      by (rule Cons.IH [OF sh])
    finally show ?thesis using Some by simp
  qed
qed

lemma get_contours_loop_skip:
  assumes "shape cm = shape I"
  shows "fst (get_contours_loop sk lvl I (cm, out) ids)
           = fst (get_contours_loop sk lvl I (cm, out')
                    (filter (\<lambda>v. traced sk lvl I v \<noteq> None) ids))"
  using assms
proof (induction ids arbitrary: cm out)
  case Nil
  show ?case by simp
next
  case (Cons v ids)
  show ?case
  proof (cases "traced sk lvl I v")
    case None
    have "fst (get_contours_loop sk lvl I (cm, out) (v # ids))
            = fst (get_contours_loop sk lvl I (cm, out @ [warning v]) ids)"
      by (simp only: get_contours_loop_step [OF Cons.prems] None option.case)
    also have "\<dots> = fst (get_contours_loop sk lvl I (cm, out')
                    (filter (\<lambda>v. traced sk lvl I v \<noteq> None) ids))"
      by (rule Cons.IH [OF Cons.prems])
    finally show ?thesis using None by simp
  next
    case (Some ps)
    have sh: "shape (fill cm ps v) = shape I" using Cons.prems by simp
    have "fst (get_contours_loop sk lvl I (cm, out) (v # ids))
            = fst (get_contours_loop sk lvl I (fill cm ps v, out) ids)"
      by (simp only: get_contours_loop_step [OF Cons.prems] Some option.case)
    also have "\<dots> = fst (get_contours_loop sk lvl I (fill cm ps v, out')
                    (filter (\<lambda>v. traced sk lvl I v \<noteq> None) ids))"
      by (rule Cons.IH [OF sh])
    also have "\<dots> = fst (get_contours_loop sk lvl I (cm, out')
                    (v # filter (\<lambda>v. traced sk lvl I v \<noteq> None) ids))"
      by (simp only: get_contours_loop_step [OF Cons.prems] Some option.case)
    finally show ?thesis using Some by simp
  qed
qed

lemma get_contours_loop_shape:
  assumes "shape cm = shape I"
  shows "shape (fst (get_contours_loop sk lvl I (cm, out) ids)) = shape I"
  using assms
proof (induction ids arbitrary: cm out)
  case Nil
  then show ?case by simp
next
  case (Cons v ids)
  show ?case
  proof (cases "traced sk lvl I v")
    case None
    have e: "get_contours_loop sk lvl I (cm, out) (v # ids)
               = get_contours_loop sk lvl I (cm, out @ [warning v]) ids"
      by (simp only: get_contours_loop_step [OF Cons.prems] None option.case)
    show ?thesis unfolding e by (rule Cons.IH [OF Cons.prems])
  next
    case (Some ps)
    have sh: "shape (fill cm ps v) = shape I" using Cons.prems by simp
    have e: "get_contours_loop sk lvl I (cm, out) (v # ids)
               = get_contours_loop sk lvl I (fill cm ps v, out) ids"
      by (simp only: get_contours_loop_step [OF Cons.prems] Some option.case)
    show ?thesis unfolding e by (rule Cons.IH [OF sh])
  qed
qed

lemma get_contours_loop_pixel:
  assumes "shape cm = shape I" and "in_bounds I p"
  shows "shape (fst (get_contours_loop sk lvl I (cm, out) ids)) = shape I
         \<and> pixel (fst (get_contours_loop sk lvl I (cm, out) ids)) p
             = (case filter (\<lambda>v. case traced sk lvl I v of None \<Rightarrow> False
                                   | Some ps \<Rightarrow> p \<in> set ps) ids of
                  [] \<Rightarrow> pixel cm p
                | k # ks \<Rightarrow> last (k # ks))"
  using assms(1)
proof (induction ids arbitrary: cm out)
  case Nil
  then show ?case by simp
next
  case (Cons v ids)
  let ?f = "filter (\<lambda>v. case traced sk lvl I v of None \<Rightarrow> False
                                   | Some ps \<Rightarrow> p \<in> set ps) ids"
  show ?case
  proof (cases "traced sk lvl I v")
    case None
    have e: "get_contours_loop sk lvl I (cm, out) (v # ids)
               = get_contours_loop sk lvl I (cm, out @ [warning v]) ids"
      by (simp only: get_contours_loop_step [OF Cons.prems] None option.case)
    show ?thesis unfolding e using Cons.IH [OF Cons.prems, of "out @ [warning v]"] None
      by simp
  next
    case (Some ps)
    have sh: "shape (fill cm ps v) = shape I" using Cons.prems by simp
    have pc: "in_bounds cm p" using assms(2) in_bounds_shape [OF Cons.prems, of p] by simp
    have e: "get_contours_loop sk lvl I (cm, out) (v # ids)
               = get_contours_loop sk lvl I (fill cm ps v, out) ids"
      by (simp only: get_contours_loop_step [OF Cons.prems] Some option.case)
    note IH = Cons.IH [OF sh, of out]
    show ?thesis unfolding e using IH Some pc
      by (cases ?f; cases "p \<in> set ps") (simp_all add: pixel_fill)
  qed
qed

text \<open>
  C8. \<open>get_contours\<close> returns a contour mask in every case: whatever the \<open>try\<close> block
  raises for an object is caught. An object whose tracing fails is skipped and one line is
  printed for it; the contour mask is the one the call computes when the failing objects
  are left out, and each of its pixels holds the id of the last traced object whose
  boundary covers it, or 0 when there is none. So the boundary pixels of every traced
  object are in the result, under a later traced object's id where two boundaries meet.
\<close>

theorem get_contours_skips_failed_objects:
  "snd (get_contours sk instance_mask contours_level)
     = map warning (filter (\<lambda>v. traced sk contours_level instance_mask v = None)
                      (get_unique_objects instance_mask))
   \<and> fst (get_contours sk instance_mask contours_level)
     = fst (get_contours_loop sk contours_level instance_mask (zeros_like instance_mask, [])
              (filter (\<lambda>v. traced sk contours_level instance_mask v \<noteq> None)
                 (get_unique_objects instance_mask)))
   \<and> shape (fst (get_contours sk instance_mask contours_level)) = shape instance_mask
   \<and> (\<forall>p. in_bounds instance_mask p \<longrightarrow>
         pixel (fst (get_contours sk instance_mask contours_level)) p
           = (case filter (\<lambda>v. case traced sk contours_level instance_mask v of
                                  None \<Rightarrow> False
                                | Some ps \<Rightarrow> p \<in> set ps)
                     (get_unique_objects instance_mask) of
                [] \<Rightarrow> 0
              | k # ks \<Rightarrow> last (k # ks)))"
proof (intro conjI allI impI)
  have sh: "shape (zeros_like instance_mask) = shape instance_mask" by simp
  show "snd (get_contours sk instance_mask contours_level)
     = map warning (filter (\<lambda>v. traced sk contours_level instance_mask v = None)
                      (get_unique_objects instance_mask))"
    unfolding get_contours_def using get_contours_loop_printed [OF sh, of sk contours_level "[]"]
    by simp
  show "fst (get_contours sk instance_mask contours_level)
     = fst (get_contours_loop sk contours_level instance_mask (zeros_like instance_mask, [])
              (filter (\<lambda>v. traced sk contours_level instance_mask v \<noteq> None)
                 (get_unique_objects instance_mask)))"
    unfolding get_contours_def by (rule get_contours_loop_skip [OF sh])
  show "shape (fst (get_contours sk instance_mask contours_level)) = shape instance_mask"
    unfolding get_contours_def by (rule get_contours_loop_shape [OF sh])
  fix p
  assume p: "in_bounds instance_mask p"
  have "pixel (zeros_like instance_mask) p = 0" using p by (rule pixel_zeros_like)
  then show "pixel (fst (get_contours sk instance_mask contours_level)) p
           = (case filter (\<lambda>v. case traced sk contours_level instance_mask v of
                                  None \<Rightarrow> False
                                | Some ps \<Rightarrow> p \<in> set ps)
                     (get_unique_objects instance_mask) of
                [] \<Rightarrow> 0
              | k # ks \<Rightarrow> last (k # ks))"
    unfolding get_contours_def
    using get_contours_loop_pixel [OF sh p, of sk contours_level "[]" "get_unique_objects instance_mask"]
    by (simp split: list.splits)
qed

theorem get_contours_skips_failed_objects_witness:
  "snd (get_contours
          \<lparr>find_contours = (\<lambda>g l. if length (np_where_eq g 1) < 2 then Inr []
                                  else Inr [np_where_eq g 1]),
           polygon_perimeter = (\<lambda>c s. Inr c),
           contour_rows = length,
           astype_int = (\<lambda>c. c)\<rparr>
          [[1, 1, 0], [0, 2, 0], [3, 3, 0]] ()) = [warning 2]
   \<and> pixel (fst (get_contours
          \<lparr>find_contours = (\<lambda>g l. if length (np_where_eq g 1) < 2 then Inr []
                                  else Inr [np_where_eq g 1]),
           polygon_perimeter = (\<lambda>c s. Inr c),
           contour_rows = length,
           astype_int = (\<lambda>c. c)\<rparr>
          [[1, 1, 0], [0, 2, 0], [3, 3, 0]] ())) (2, 0) = 3"
proof -
  define sk :: "(pos list, unit) skimage" where
    "sk = \<lparr>find_contours = (\<lambda>g l. if length (np_where_eq g 1) < 2 then Inr []
                                  else Inr [np_where_eq g 1]),
           polygon_perimeter = (\<lambda>c s. Inr c),
           contour_rows = length,
           astype_int = (\<lambda>c. c)\<rparr>"
  let ?I = "[[1, 1, 0], [0, 2, 0], [3, 3, 0]] :: grid"
  note T = get_contours_skips_failed_objects [of sk ?I "()"]
  have ids: "get_unique_objects ?I = [1, 2, 3]"
    by (simp add: get_unique_objects_def np_unique_def flatten_def)
  have t1: "traced sk () ?I 1 = Some [(0, 0), (0, 1)]"
    by (simp add: sk_def traced_def perimeter_def single_obj_mask_def np_where_eq_def
        upt_conv_Cons in_bounds_def)
  have t2: "traced sk () ?I 2 = None"
    by (simp add: sk_def traced_def perimeter_def single_obj_mask_def np_where_eq_def
        upt_conv_Cons in_bounds_def)
  have t3: "traced sk () ?I 3 = Some [(2, 0), (2, 1)]"
    by (simp add: sk_def traced_def perimeter_def single_obj_mask_def np_where_eq_def
        upt_conv_Cons in_bounds_def)
  have "snd (get_contours sk ?I ())
          = map warning (filter (\<lambda>v. traced sk () ?I v = None) [1, 2, 3])"
    using T [THEN conjunct1] unfolding ids .
  then have "snd (get_contours sk ?I ()) = [warning 2]"
    by (simp add: t1 t2 t3)
  moreover have b: "in_bounds ?I (2, 0)" by (simp add: in_bounds_def)
  have "pixel (fst (get_contours sk ?I ())) (2, 0)
          = (case filter (\<lambda>v. case traced sk () ?I v of None \<Rightarrow> False
                                 | Some ps \<Rightarrow> (2, 0) \<in> set ps) [1, 2, 3] of
               [] \<Rightarrow> 0
             | k # ks \<Rightarrow> last (k # ks))"
    using T [THEN conjunct2, THEN conjunct2, THEN conjunct2, rule_format, OF b]
    unfolding ids .
  then have "pixel (fst (get_contours sk ?I ())) (2, 0) = 3"
    by (simp add: t1 t2 t3)
  ultimately show ?thesis unfolding sk_def by blast
qed

section \<open>Masks with a background pixel\<close>

text \<open>
  On a mask that has a background pixel and no negative value the smallest distinct value
  is 0, and \<open>get_unique_objects\<close> returns the object ids: the values other than 0,
  ascending, each once.
\<close>

lemma get_unique_objects_with_background:
  assumes "0 \<in> set (flatten g)" and "\<forall>v \<in> set (flatten g). 0 \<le> v"
  shows "set (get_unique_objects g) = set (flatten g) - {0}
         \<and> sorted (get_unique_objects g) \<and> distinct (get_unique_objects g)"
proof -
  define us where "us = np_unique (flatten g)"
  have srt: "sorted us" and dst: "distinct us" and st: "set us = set (flatten g)"
    by (simp_all add: us_def np_unique_sorted np_unique_distinct)
  have "us \<noteq> []" using assms(1) st by auto
  then obtain u rest where us: "us = u # rest" by (cases us) auto
  have "u \<in> set (flatten g)" using us st by auto
  then have "0 \<le> u" using assms(2) by blast
  moreover have "0 \<in> set us" using assms(1) st by simp
  then have "u \<le> 0" using srt us by auto
  ultimately have u0: "u = 0" by simp
  have "set rest = set us - {0}" using dst us u0 by auto
  then have "set (get_unique_objects g) = set (flatten g) - {0}"
    using us st by (simp add: get_unique_objects_def us_def [symmetric])
  then show ?thesis
    by (simp add: get_unique_objects_sorted get_unique_objects_distinct)
qed

text \<open>
  On such an instance mask \<open>add_contour\<close> visits every object, and each object ends with
  one class value.
\<close>

lemma add_contour_one_class_with_background:
  assumes "shape C = shape I" and "0 \<in> set (flatten I)" and "\<forall>v \<in> set (flatten I). 0 \<le> v"
  shows "\<exists>C'. add_contour C I = Inr C' \<and>
           (\<forall>p q. in_bounds I p \<and> in_bounds I q \<and> pixel I p = pixel I q \<and> pixel I p \<noteq> 0
                  \<longrightarrow> pixel C' p = pixel C' q)"
proof -
  from add_contour_majority [OF assms(1)] obtain C' where
    r: "add_contour C I = Inr C'"
    and m: "\<And>p. in_bounds I p \<and> pixel I p \<in> set (get_unique_objects I) \<Longrightarrow>
              majority_class (map (pixel C) (np_where_eq I (pixel I p))) = Inr (pixel C' p)"
    by blast
  have ids: "set (get_unique_objects I) = set (flatten I) - {0}"
    using get_unique_objects_with_background [OF assms(2,3)] by blast
  have "pixel C' p = pixel C' q"
    if a: "in_bounds I p \<and> in_bounds I q \<and> pixel I p = pixel I q \<and> pixel I p \<noteq> 0" for p q
  proof -
    have "\<exists>r. in_bounds I r \<and> pixel I r = pixel I p" using a by blast
    then have "pixel I p \<in> set (flatten I)" by (simp only: flatten_set)
    then have mem: "pixel I p \<in> set (get_unique_objects I)" using a ids by simp
    have "majority_class (map (pixel C) (np_where_eq I (pixel I p))) = Inr (pixel C' p)"
      using m [of p] a mem by simp
    moreover have "majority_class (map (pixel C) (np_where_eq I (pixel I q))) = Inr (pixel C' q)"
      using m [of q] a mem by simp
    ultimately show ?thesis using a by simp
  qed
  then show ?thesis using r by blast
qed

end
